theory Spec2Isabelle
  imports Main "HOL-Library.Word" "HOL-Library.Multiset"
begin

unbundle bit_operations_syntax

section \<open>Platform primitives used by the storage classes\<close>

subsection \<open>SHA-256 (the digest computed by \<^verbatim>\<open>crypto.subtle.digest('SHA-256', data)\<close>)\<close>

text \<open>
  \<^verbatim>\<open>hashPassword\<close> calls the platform's SHA-256. The digest is written out here as
  FIPS 180-4 defines it, on bytes (\<open>8 word\<close>) and 32-bit words whose addition wraps.
\<close>

type_synonym byte = "8 word"
type_synonym w32 = "32 word"
type_synonym sha_state = "w32 \<times> w32 \<times> w32 \<times> w32 \<times> w32 \<times> w32 \<times> w32 \<times> w32"

text \<open>The round constants and the initial hash value, in decimal.\<close>

definition K256 :: "w32 list" where
  "K256 = [
   1116352408, 1899447441, 3049323471, 3921009573, 961987163, 1508970993, 2453635748, 2870763221,
   3624381080, 310598401, 607225278, 1426881987, 1925078388, 2162078206, 2614888103, 3248222580,
   3835390401, 4022224774, 264347078, 604807628, 770255983, 1249150122, 1555081692, 1996064986,
   2554220882, 2821834349, 2952996808, 3210313671, 3336571891, 3584528711, 113926993, 338241895,
   666307205, 773529912, 1294757372, 1396182291, 1695183700, 1986661051, 2177026350, 2456956037,
   2730485921, 2820302411, 3259730800, 3345764771, 3516065817, 3600352804, 4094571909, 275423344,
   430227734, 506948616, 659060556, 883997877, 958139571, 1322822218, 1537002063, 1747873779,
   1955562222, 2024104815, 2227730452, 2361852424, 2428436474, 2756734187, 3204031479, 3329325298]"

definition H256_init :: sha_state where
  "H256_init = (1779033703, 3144134277, 1013904242, 2773480762,
                1359893119, 2600822924, 528734635, 1541459225)"

definition Ch :: "w32 \<Rightarrow> w32 \<Rightarrow> w32 \<Rightarrow> w32" where
  "Ch x y z = (x AND y) XOR (NOT x AND z)"

definition Maj :: "w32 \<Rightarrow> w32 \<Rightarrow> w32 \<Rightarrow> w32" where
  "Maj x y z = (x AND y) XOR (x AND z) XOR (y AND z)"

definition bsig0 :: "w32 \<Rightarrow> w32" where
  "bsig0 x = word_rotr 2 x XOR word_rotr 13 x XOR word_rotr 22 x"

definition bsig1 :: "w32 \<Rightarrow> w32" where
  "bsig1 x = word_rotr 6 x XOR word_rotr 11 x XOR word_rotr 25 x"

definition ssig0 :: "w32 \<Rightarrow> w32" where
  "ssig0 x = word_rotr 7 x XOR word_rotr 18 x XOR drop_bit 3 x"

definition ssig1 :: "w32 \<Rightarrow> w32" where
  "ssig1 x = word_rotr 17 x XOR word_rotr 19 x XOR drop_bit 10 x"

definition sha_pad :: "byte list \<Rightarrow> byte list" where
  "sha_pad bs =
     (let l = length bs;
          k = (119 - l mod 64) mod 64;
          bits = (word_of_nat (l * 8) :: 64 word)
      in bs @ [0x80] @ replicate k 0 @
         map (\<lambda>i. ucast (drop_bit (8 * i) bits)) (rev [0..<8]))"

fun be_words :: "byte list \<Rightarrow> w32 list" where
  "be_words (a # b # c # d # rest) =
     (push_bit 24 (ucast a) OR push_bit 16 (ucast b) OR push_bit 8 (ucast c) OR ucast d)
       # be_words rest"
| "be_words _ = []"

fun sha_blocks :: "w32 list \<Rightarrow> w32 list list" where
  "sha_blocks ws = (if length ws < 16 then [] else take 16 ws # sha_blocks (drop 16 ws))"

declare sha_blocks.simps [simp del]

fun sha_extend :: "nat \<Rightarrow> w32 list \<Rightarrow> w32 list" where
  "sha_extend 0 w = w"
| "sha_extend (Suc n) w =
     (let t = length w
      in sha_extend n
           (w @ [ssig1 (w ! (t - 2)) + w ! (t - 7) + ssig0 (w ! (t - 15)) + w ! (t - 16)]))"

definition sha_round :: "sha_state \<Rightarrow> w32 \<times> w32 \<Rightarrow> sha_state" where
  "sha_round s kw =
     (case s of (a, b, c, d, e, f, g, h) \<Rightarrow>
        let t1 = h + bsig1 e + Ch e f g + fst kw + snd kw;
            t2 = bsig0 a + Maj a b c
        in (t1 + t2, a, b, c, d + t1, e, f, g))"

definition sha_compress :: "sha_state \<Rightarrow> w32 list \<Rightarrow> sha_state" where
  "sha_compress s block =
     (case (s, foldl sha_round s (zip K256 (sha_extend 48 block))) of
        ((a, b, c, d, e, f, g, h), (a', b', c', d', e', f', g', h')) \<Rightarrow>
          (a + a', b + b', c + c', d + d', e + e', f + f', g + g', h + h'))"

definition be_bytes :: "w32 \<Rightarrow> byte list" where
  "be_bytes w = [ucast (drop_bit 24 w), ucast (drop_bit 16 w), ucast (drop_bit 8 w), ucast w]"

definition sha256 :: "byte list \<Rightarrow> byte list" where
  "sha256 bs =
     (case foldl sha_compress H256_init (sha_blocks (be_words (sha_pad bs))) of
        (a, b, c, d, e, f, g, h) \<Rightarrow>
          be_bytes a @ be_bytes b @ be_bytes c @ be_bytes d @
          be_bytes e @ be_bytes f @ be_bytes g @ be_bytes h)"

subsection \<open>Strings, numbers and JavaScript helpers\<close>

text \<open>
  A JavaScript string is modelled as a \<open>string\<close> whose characters are the code points
  U+0000 to U+00FF. \<^verbatim>\<open>TextEncoder.encode\<close> is UTF-8: one byte below U+0080, two bytes
  from there on.
\<close>

definition TextEncoder_encode :: "string \<Rightarrow> byte list" where
  "TextEncoder_encode s =
     concat (map (\<lambda>c. let n = (of_char c :: nat)
                       in if n < 128 then [word_of_nat n]
                          else [word_of_nat (192 + n div 64), word_of_nat (128 + n mod 64)]) s)"

definition hex_digit :: "nat \<Rightarrow> char" where
  "hex_digit d = ''0123456789abcdef'' ! (d mod 16)"

text \<open>\<^verbatim>\<open>Number.prototype.toString(16)\<close> on a non-negative integer.\<close>

fun toString16 :: "nat \<Rightarrow> string" where
  "toString16 n =
     (if n < 16 then [hex_digit n] else toString16 (n div 16) @ [hex_digit (n mod 16)])"

declare toString16.simps [simp del]

definition padStart :: "nat \<Rightarrow> char \<Rightarrow> string \<Rightarrow> string" where
  "padStart n c s = replicate (n - length s) c @ s"

text \<open>\<^verbatim>\<open>sql.first()\<close>: the first row of a result, or null.\<close>

definition first :: "'a list \<Rightarrow> 'a option" where
  "first rows = (case rows of [] \<Rightarrow> None | r # _ \<Rightarrow> Some r)"

text \<open>
  \<^verbatim>\<open>ORDER BY col DESC\<close> on an integer column. SQL leaves the order of rows with
  equal keys open; the model keeps them in stored order.
\<close>

definition order_by_desc :: "('a \<Rightarrow> int) \<Rightarrow> 'a list \<Rightarrow> 'a list" where
  "order_by_desc col rows = sort_key (\<lambda>r. - col r) rows"

section \<open>The data model: environment, tables and interface records\<close>

record env =
  USERNAME :: "string option"
  PASSWORD :: "string option"
  MAX_PLAY_RECORDS_PER_USER :: "string option"

datatype role = role_owner | role_admin | role_user

datatype backend = PostgresStorage | D1Storage

datatype db_error =
    ForeignKeyViolation | UniqueViolation | NegativeLimitOrOffset | NotANumber
  | NumericValueOutOfRange | InvalidByteSequence

text \<open>
  One record per table of the schema, one field per column, the column's name prefixed
  by the table's initials. The columns \<^verbatim>\<open>tags\<close> and \<^verbatim>\<open>enabled_apis\<close> hold the
  string array whose JSON text the code stores (\<^verbatim>\<open>JSON.stringify\<close> on writing,
  \<^verbatim>\<open>JSON.parse\<close> on reading). JavaScript numbers are integers here.
\<close>

record user_row =
  u_username :: string
  u_password_hash :: string
  u_role :: role
  u_banned :: int
  u_tags :: "string list option"
  u_oidc_sub :: "string option"
  u_enabled_apis :: "string list option"
  u_created_at :: int
  u_playrecord_migrated :: int
  u_favorite_migrated :: int
  u_skip_migrated :: int
  u_last_movie_request_time :: "int option"
  u_email :: "string option"
  u_email_notifications :: int

text \<open>
  \<^verbatim>\<open>pr_new_episodes\<close> is a column of the D1 table only; the Postgres schema has no such
  column and the Postgres class never writes or reads it.
\<close>

record play_row =
  pr_username :: string
  pr_key :: string
  pr_title :: string
  pr_source_name :: string
  pr_cover :: "string option"
  pr_year :: "string option"
  pr_episode_index :: int
  pr_total_episodes :: int
  pr_play_time :: int
  pr_total_time :: int
  pr_save_time :: int
  pr_search_title :: "string option"
  pr_new_episodes :: "int option"

record favorite_row =
  fav_username :: string
  fav_key :: string
  fav_source_name :: string
  fav_total_episodes :: int
  fav_title :: string
  fav_year :: "string option"
  fav_cover :: "string option"
  fav_save_time :: int
  fav_search_title :: "string option"
  fav_origin :: "string option"
  fav_is_completed :: int
  fav_vod_remarks :: "string option"

record search_row =
  sh_id :: int
  sh_username :: string
  sh_keyword :: string
  sh_timestamp :: int

record skip_row =
  sk_username :: string
  sk_key :: string
  sk_enable :: int
  sk_intro_time :: int
  sk_outro_time :: int

record danmaku_row =
  dm_username :: string
  dm_rules :: string

record notification_row =
  nt_id :: string
  nt_username :: string
  nt_type :: string
  nt_title :: string
  nt_message :: string
  nt_timestamp :: int
  nt_read :: int
  nt_metadata :: "string option"

record user_movie_request_row =
  umr_username :: string
  umr_request_id :: string

record favorite_check_row =
  fct_username :: string
  fct_last_check_time :: int

record admin_config_row =
  ac_id :: int
  ac_config :: string
  ac_updated_at :: int

text \<open>The objects the methods return.\<close>

record user_public =
  role :: role
  banned :: bool
  tags :: "string list option"
  oidcSub :: "string option"
  enabledApis :: "string list option"
  created_at :: int

record user_info = user_public +
  playrecord_migrated :: bool
  favorite_migrated :: bool
  skip_migrated :: bool
  last_movie_request_time :: "int option"
  email :: "string option"
  emailNotifications :: "bool option"

record user_entry = user_public +
  username :: string

record PlayRecord =
  title :: string
  source_name :: string
  cover :: string
  year :: string
  index :: int
  total_episodes :: int
  play_time :: int
  total_time :: int
  save_time :: int
  search_title :: string
  new_episodes :: "int option"

text \<open>
  The database with its tables in stored order, the sequence behind
  \<^verbatim>\<open>search_history.id SERIAL\<close>, and the in-process \<^verbatim>\<open>userInfoCache\<close>.
\<close>

record db =
  users :: "user_row list"
  play_records :: "play_row list"
  favorites :: "favorite_row list"
  search_history :: "search_row list"
  search_history_id_seq :: int
  skip_configs :: "skip_row list"
  danmaku_filter_configs :: "danmaku_row list"
  notifications :: "notification_row list"
  user_movie_requests :: "user_movie_request_row list"
  favorite_check_times :: "favorite_check_row list"
  admin_config :: "admin_config_row list"
  userInfoCache :: "string \<Rightarrow> user_info option"

section \<open>User management\<close>

definition hashPassword :: "string \<Rightarrow> string" where
  "hashPassword password =
     concat (map (\<lambda>b. padStart 2 (CHR ''0'') (toString16 (unat b)))
                 (sha256 (TextEncoder_encode password)))"

definition verifyUser :: "env \<Rightarrow> db \<Rightarrow> string \<Rightarrow> string \<Rightarrow> bool" where
  "verifyUser e st userName password =
     (if USERNAME e = Some userName \<and> PASSWORD e = Some password then True
      else case first (filter (\<lambda>r. u_username r = userName \<and> u_banned r = 0) (users st)) of
             None \<Rightarrow> False
           | Some usr \<Rightarrow>
               if u_password_hash usr = [] then False
               else u_password_hash usr = hashPassword password)"

definition verifyUserV2 :: "db \<Rightarrow> string \<Rightarrow> string \<Rightarrow> bool" where
  "verifyUserV2 st userName password =
     (case first (filter (\<lambda>r. u_username r = userName) (users st)) of
        None \<Rightarrow> False
      | Some usr \<Rightarrow> u_password_hash usr = hashPassword password)"

text \<open>
  \<^verbatim>\<open>INSERT INTO users\<close>: the primary key \<^verbatim>\<open>username\<close> and the
  \<^verbatim>\<open>UNIQUE\<close> column \<^verbatim>\<open>oidc_sub\<close> (nulls excepted) reject a duplicate.
\<close>

definition insert_user :: "user_row \<Rightarrow> db \<Rightarrow> db_error + db" where
  "insert_user row st =
     (if u_username row \<in> set (map u_username (users st)) then Inl UniqueViolation
      else if u_oidc_sub row \<noteq> None \<and> u_oidc_sub row \<in> set (map u_oidc_sub (users st))
      then Inl UniqueViolation
      else Inr (st\<lparr>users := users st @ [row]\<rparr>))"

text \<open>\<^verbatim>\<open>UPDATE users SET ... WHERE username = ?\<close>\<close>

definition update_user :: "string \<Rightarrow> (user_row \<Rightarrow> user_row) \<Rightarrow> db \<Rightarrow> db" where
  "update_user userName f st =
     st\<lparr>users := map (\<lambda>r. if u_username r = userName then f r else r) (users st)\<rparr>"

definition cache_delete :: "string \<Rightarrow> db \<Rightarrow> db" where
  "cache_delete userName st = st\<lparr>userInfoCache := (userInfoCache st)(userName := None)\<rparr>"

definition cache_set :: "string \<Rightarrow> user_info \<Rightarrow> db \<Rightarrow> db" where
  "cache_set userName info st = st\<lparr>userInfoCache := (userInfoCache st)(userName \<mapsto> info)\<rparr>"

text \<open>A new row: the columns an \<^verbatim>\<open>INSERT\<close> does not name take the schema's defaults.\<close>

definition new_user_row ::
  "string \<Rightarrow> string \<Rightarrow> role \<Rightarrow> int \<Rightarrow> string list option \<Rightarrow> string option \<Rightarrow>
   string list option \<Rightarrow> int \<Rightarrow> user_row" where
  "new_user_row userName passwordHash r bannedFlag tgs oidc apis createdAt =
     \<lparr>u_username = userName, u_password_hash = passwordHash, u_role = r,
      u_banned = bannedFlag, u_tags = tgs, u_oidc_sub = oidc, u_enabled_apis = apis,
      u_created_at = createdAt, u_playrecord_migrated = 1, u_favorite_migrated = 1,
      u_skip_migrated = 1, u_last_movie_request_time = None, u_email = None,
      u_email_notifications = 1\<rparr>"

text \<open>\<^verbatim>\<open>x || null\<close> on an optional string: the empty string is falsy.\<close>

definition or_null :: "string option \<Rightarrow> string option" where
  "or_null x = (case x of None \<Rightarrow> None | Some s \<Rightarrow> if s = [] then None else Some s)"

definition changePassword :: "db \<Rightarrow> string \<Rightarrow> string \<Rightarrow> db" where
  "changePassword st userName newPassword =
     update_user userName (\<lambda>r. r\<lparr>u_password_hash := hashPassword newPassword\<rparr>) st"

definition row_userInfo :: "user_row \<Rightarrow> user_info" where
  "row_userInfo usr =
     \<lparr>role = u_role usr, banned = (u_banned usr = 1), tags = u_tags usr,
      oidcSub = u_oidc_sub usr, enabledApis = u_enabled_apis usr,
      created_at = u_created_at usr,
      playrecord_migrated = (u_playrecord_migrated usr = 1),
      favorite_migrated = (u_favorite_migrated usr = 1),
      skip_migrated = (u_skip_migrated usr = 1),
      last_movie_request_time = u_last_movie_request_time usr,
      email = u_email usr,
      emailNotifications = Some (u_email_notifications usr = 1)\<rparr>"

definition ownerInfo_default :: "int \<Rightarrow> user_info" where
  "ownerInfo_default now =
     \<lparr>role = role_owner, banned = False, tags = None, oidcSub = None, enabledApis = None,
      created_at = now, playrecord_migrated = True, favorite_migrated = True,
      skip_migrated = True, last_movie_request_time = None, email = None,
      emailNotifications = None\<rparr>"

text \<open>
  \<^verbatim>\<open>getUserInfoV2\<close>: the cache, then the table, then the owner of the environment, for
  whom a row is created (a failed insert is caught and ignored). Only \<^verbatim>\<open>D1Storage\<close>
  forces the role of a stored owner row to \<^verbatim>\<open>'owner'\<close>. \<open>now\<close> is \<^verbatim>\<open>Date.now()\<close>.
\<close>

definition getUserInfoV2 ::
  "backend \<Rightarrow> env \<Rightarrow> int \<Rightarrow> db \<Rightarrow> string \<Rightarrow> user_info option \<times> db" where
  "getUserInfoV2 b e now st userName =
     (case userInfoCache st userName of
        Some cached \<Rightarrow> (Some cached, st)
      | None \<Rightarrow>
          (case first (filter (\<lambda>r. u_username r = userName) (users st)) of
             Some usr \<Rightarrow>
               let userInfo0 = row_userInfo usr;
                   userInfo = (if b = D1Storage \<and> USERNAME e = Some userName
                               then userInfo0\<lparr>role := role_owner\<rparr> else userInfo0)
               in (Some userInfo, cache_set userName userInfo st)
           | None \<Rightarrow>
               if USERNAME e = Some userName then
                 let ownerInfo = ownerInfo_default now;
                     st1 = (case insert_user
                                   (new_user_row userName [] role_owner 0 None None None
                                      (created_at ownerInfo)) st of
                              Inl err \<Rightarrow> st
                            | Inr st' \<Rightarrow> st')
                 in (Some ownerInfo, cache_set userName ownerInfo st1)
               else (None, st)))"

definition createUserV2 ::
  "backend \<Rightarrow> int \<Rightarrow> db \<Rightarrow> string \<Rightarrow> string \<Rightarrow> role \<Rightarrow> string list option \<Rightarrow>
   string option \<Rightarrow> string list option \<Rightarrow> db_error + db" where
  "createUserV2 b now st userName password r tgs oidc apis =
     (case insert_user
             (new_user_row userName (hashPassword password) r 0 tgs (or_null oidc) apis now) st of
        Inl err \<Rightarrow> Inl err
      | Inr st' \<Rightarrow> Inr (if b = D1Storage then cache_delete userName st' else st'))"

record user_updates =
  upd_role :: "role option"
  upd_banned :: "bool option"
  upd_tags :: "string list option"
  upd_oidcSub :: "string option"
  upd_enabledApis :: "string list option"

definition apply_updates :: "user_updates \<Rightarrow> user_row \<Rightarrow> user_row" where
  "apply_updates updates r =
     (let r1 = (case upd_role updates of None \<Rightarrow> r | Some v \<Rightarrow> r\<lparr>u_role := v\<rparr>);
          r2 = (case upd_banned updates of None \<Rightarrow> r1
                | Some v \<Rightarrow> r1\<lparr>u_banned := (if v then 1 else 0)\<rparr>);
          r3 = (case upd_tags updates of None \<Rightarrow> r2 | Some v \<Rightarrow> r2\<lparr>u_tags := Some v\<rparr>);
          r4 = (case upd_oidcSub updates of None \<Rightarrow> r3 | Some v \<Rightarrow> r3\<lparr>u_oidc_sub := Some v\<rparr>)
      in (case upd_enabledApis updates of None \<Rightarrow> r4
          | Some v \<Rightarrow> r4\<lparr>u_enabled_apis := Some v\<rparr>))"

definition updateUserInfoV2 :: "db \<Rightarrow> string \<Rightarrow> user_updates \<Rightarrow> db_error + db" where
  "updateUserInfoV2 st userName updates =
     (if upd_role updates = None \<and> upd_banned updates = None \<and> upd_tags updates = None \<and>
         upd_oidcSub updates = None \<and> upd_enabledApis updates = None
      then Inr st
      else if upd_oidcSub updates \<noteq> None \<and> userName \<in> set (map u_username (users st)) \<and>
              upd_oidcSub updates \<in>
                set (map u_oidc_sub (filter (\<lambda>r. u_username r \<noteq> userName) (users st)))
      then Inl UniqueViolation
      else Inr (cache_delete userName (update_user userName (apply_updates updates) st)))"

definition changePasswordV2 :: "backend \<Rightarrow> db \<Rightarrow> string \<Rightarrow> string \<Rightarrow> db" where
  "changePasswordV2 b st userName newPassword =
     (let st' = update_user userName (\<lambda>r. r\<lparr>u_password_hash := hashPassword newPassword\<rparr>) st
      in if b = D1Storage then cache_delete userName st' else st')"

definition setUserPasswordHash :: "db \<Rightarrow> string \<Rightarrow> string \<Rightarrow> db" where
  "setUserPasswordHash st userName passwordHash =
     update_user userName (\<lambda>r. r\<lparr>u_password_hash := passwordHash\<rparr>) st"

definition createUserWithHashedPassword ::
  "db \<Rightarrow> string \<Rightarrow> string \<Rightarrow> role \<Rightarrow> int \<Rightarrow> string list option \<Rightarrow> string option \<Rightarrow>
   string list option \<Rightarrow> bool option \<Rightarrow> db_error + db" where
  "createUserWithHashedPassword st userName passwordHash r createdAt tgs oidc apis bnd =
     insert_user
       (new_user_row userName passwordHash r (if bnd = Some True then 1 else 0) tgs
          (or_null oidc) apis createdAt) st"

definition setUserEmail :: "db \<Rightarrow> string \<Rightarrow> string \<Rightarrow> db" where
  "setUserEmail st userName mail =
     cache_delete userName (update_user userName (\<lambda>r. r\<lparr>u_email := Some mail\<rparr>) st)"

definition setEmailNotificationPreference :: "db \<Rightarrow> string \<Rightarrow> bool \<Rightarrow> db" where
  "setEmailNotificationPreference st userName enabled =
     cache_delete userName
       (update_user userName (\<lambda>r. r\<lparr>u_email_notifications := (if enabled then 1 else 0)\<rparr>) st)"

definition updateLastMovieRequestTime :: "db \<Rightarrow> string \<Rightarrow> int \<Rightarrow> db" where
  "updateLastMovieRequestTime st userName ts =
     update_user userName (\<lambda>r. r\<lparr>u_last_movie_request_time := Some ts\<rparr>) st"

text \<open>
  The three migration markers. \<^verbatim>\<open>D1Storage\<close> also drops the user's cache entry.
\<close>

definition migratePlayRecords :: "backend \<Rightarrow> db \<Rightarrow> string \<Rightarrow> db" where
  "migratePlayRecords b st userName =
     (let st' = update_user userName (\<lambda>r. r\<lparr>u_playrecord_migrated := 1\<rparr>) st
      in if b = D1Storage then cache_delete userName st' else st')"

definition migrateFavorites :: "backend \<Rightarrow> db \<Rightarrow> string \<Rightarrow> db" where
  "migrateFavorites b st userName =
     (let st' = update_user userName (\<lambda>r. r\<lparr>u_favorite_migrated := 1\<rparr>) st
      in if b = D1Storage then cache_delete userName st' else st')"

definition migrateSkipConfigs :: "backend \<Rightarrow> db \<Rightarrow> string \<Rightarrow> db" where
  "migrateSkipConfigs b st userName =
     (let st' = update_user userName (\<lambda>r. r\<lparr>u_skip_migrated := 1\<rparr>) st
      in if b = D1Storage then cache_delete userName st' else st')"

section \<open>Play records\<close>

text \<open>
  The \<^verbatim>\<open>PlayRecord\<close> interface is declared outside the files at hand; its fields are the
  ones \<^verbatim>\<open>setPlayRecord\<close> reads and \<^verbatim>\<open>rowToPlayRecord\<close> fills. The text fields are
  strings, for which \<^verbatim>\<open>record.cover || ''\<close> is the field itself.
\<close>

text \<open>\<^verbatim>\<open>row.cover || ''\<close> on a nullable text column.\<close>

definition or_empty :: "string option \<Rightarrow> string" where
  "or_empty x = (case x of None \<Rightarrow> [] | Some s \<Rightarrow> s)"

text \<open>\<^verbatim>\<open>n || null\<close> and \<^verbatim>\<open>n || undefined\<close> on an optional number: zero is falsy.\<close>

definition num_or_null :: "int option \<Rightarrow> int option" where
  "num_or_null x = (case x of None \<Rightarrow> None | Some n \<Rightarrow> if n = 0 then None else Some n)"

definition rowToPlayRecord :: "backend \<Rightarrow> play_row \<Rightarrow> PlayRecord" where
  "rowToPlayRecord b row =
     \<lparr>title = pr_title row, source_name = pr_source_name row,
      cover = or_empty (pr_cover row), year = or_empty (pr_year row),
      index = pr_episode_index row, total_episodes = pr_total_episodes row,
      play_time = pr_play_time row, total_time = pr_total_time row,
      save_time = pr_save_time row, search_title = or_empty (pr_search_title row),
      new_episodes = (if b = D1Storage then num_or_null (pr_new_episodes row) else None)\<rparr>"

definition getPlayRecord :: "backend \<Rightarrow> db \<Rightarrow> string \<Rightarrow> string \<Rightarrow> PlayRecord option" where
  "getPlayRecord b st userName key =
     (case first (filter (\<lambda>r. pr_username r = userName \<and> pr_key r = key) (play_records st)) of
        None \<Rightarrow> None
      | Some result \<Rightarrow> Some (rowToPlayRecord b result))"

text \<open>
  What Postgres refuses when the parameters of the \<^verbatim>\<open>INSERT\<close> are bound: a text that
  holds the character U+0000 (SQLSTATE 22021), a number outside the 32-bit \<^verbatim>\<open>INTEGER\<close>
  columns \<^verbatim>\<open>episode_index\<close> and \<^verbatim>\<open>total_episodes\<close>, or outside the 64-bit
  \<^verbatim>\<open>BIGINT\<close> columns \<^verbatim>\<open>play_time\<close>, \<^verbatim>\<open>total_time\<close> and \<^verbatim>\<open>save_time\<close>
  (SQLSTATE 22003). \<^verbatim>\<open>setPlayRecord\<close> binds unchecked and rethrows. SQLite, behind
  \<^verbatim>\<open>D1Storage\<close>, stores such values.
\<close>

definition has_nul :: "string \<Rightarrow> bool" where
  "has_nul s = (\<exists>c \<in> set s. (of_char c :: nat) = 0)"

definition int32_range :: "int \<Rightarrow> bool" where
  "int32_range n = (- 2147483648 \<le> n \<and> n \<le> 2147483647)"

definition int64_range :: "int \<Rightarrow> bool" where
  "int64_range n = (- 9223372036854775808 \<le> n \<and> n \<le> 9223372036854775807)"

definition bind_error :: "backend \<Rightarrow> string \<Rightarrow> string \<Rightarrow> PlayRecord \<Rightarrow> db_error option" where
  "bind_error b userName key record =
     (case b of
        D1Storage \<Rightarrow> None
      | PostgresStorage \<Rightarrow>
          if has_nul userName \<or> has_nul key \<or> has_nul (title record) \<or>
             has_nul (source_name record) \<or> has_nul (cover record) \<or> has_nul (year record) \<or>
             has_nul (search_title record)
          then Some InvalidByteSequence
          else if int32_range (index record) \<and> int32_range (total_episodes record) \<and>
                  int64_range (play_time record) \<and> int64_range (total_time record) \<and>
                  int64_range (save_time record)
          then None
          else Some NumericValueOutOfRange)"

text \<open>
  \<^verbatim>\<open>INSERT ... ON CONFLICT (username, key) DO UPDATE SET ...\<close>: a row with the same key
  pair has the listed columns overwritten; otherwise the row is added, which the foreign
  key on \<^verbatim>\<open>users(username)\<close> refuses for an unknown user. \<^verbatim>\<open>new_episodes\<close> is
  bound and listed by \<^verbatim>\<open>D1Storage\<close> only.
\<close>

definition upsert_play_record ::
  "backend \<Rightarrow> db \<Rightarrow> string \<Rightarrow> string \<Rightarrow> PlayRecord \<Rightarrow> db_error + db" where
  "upsert_play_record b st userName key record =
     (if \<exists>r \<in> set (play_records st). pr_username r = userName \<and> pr_key r = key then
        Inr (st\<lparr>play_records :=
                  map (\<lambda>r. if pr_username r = userName \<and> pr_key r = key
                            then r\<lparr>pr_title := title record,
                                   pr_source_name := source_name record,
                                   pr_cover := Some (cover record),
                                   pr_year := Some (year record),
                                   pr_episode_index := index record,
                                   pr_total_episodes := total_episodes record,
                                   pr_play_time := play_time record,
                                   pr_total_time := total_time record,
                                   pr_save_time := save_time record,
                                   pr_search_title := Some (search_title record),
                                   pr_new_episodes :=
                                     (if b = D1Storage then num_or_null (new_episodes record)
                                      else pr_new_episodes r)\<rparr>
                            else r)
                      (play_records st)\<rparr>)
      else if userName \<notin> set (map u_username (users st)) then Inl ForeignKeyViolation
      else
        Inr (st\<lparr>play_records := play_records st @
                  [\<lparr>pr_username = userName, pr_key = key, pr_title = title record,
                    pr_source_name = source_name record, pr_cover = Some (cover record),
                    pr_year = Some (year record), pr_episode_index = index record,
                    pr_total_episodes = total_episodes record,
                    pr_play_time = play_time record, pr_total_time = total_time record,
                    pr_save_time = save_time record,
                    pr_search_title = Some (search_title record),
                    pr_new_episodes =
                      (if b = D1Storage then num_or_null (new_episodes record) else None)\<rparr>]\<rparr>))"

text \<open>\<^verbatim>\<open>setPlayRecord\<close>: the statement is prepared, bound and run; an error is rethrown.\<close>

definition setPlayRecord ::
  "backend \<Rightarrow> db \<Rightarrow> string \<Rightarrow> string \<Rightarrow> PlayRecord \<Rightarrow> db_error + db" where
  "setPlayRecord b st userName key record =
     (case bind_error b userName key record of
        Some err \<Rightarrow> Inl err
      | None \<Rightarrow> upsert_play_record b st userName key record)"

definition deletePlayRecord :: "db \<Rightarrow> string \<Rightarrow> string \<Rightarrow> db" where
  "deletePlayRecord st userName key =
     st\<lparr>play_records :=
          filter (\<lambda>r. \<not> (pr_username r = userName \<and> pr_key r = key)) (play_records st)\<rparr>"

text \<open>
  \<^verbatim>\<open>parseInt(s, 10)\<close>: leading white space, an optional sign, then decimal digits up to
  the first other character; \<open>None\<close> is \<^verbatim>\<open>NaN\<close>.
\<close>

definition is_digit :: "char \<Rightarrow> bool" where
  "is_digit c = (48 \<le> (of_char c :: nat) \<and> (of_char c :: nat) \<le> 57)"

definition is_white :: "char \<Rightarrow> bool" where
  "is_white c = ((of_char c :: nat) \<in> {9, 10, 11, 12, 13, 32, 160})"

definition digits_value :: "string \<Rightarrow> int" where
  "digits_value ds = foldl (\<lambda>acc c. acc * 10 + (int (of_char c) - 48)) 0 ds"

definition parseInt :: "string \<Rightarrow> int option" where
  "parseInt s =
     (let t = dropWhile is_white s;
          neg = (t \<noteq> [] \<and> hd t = CHR ''-'');
          u = (if t \<noteq> [] \<and> (hd t = CHR ''-'' \<or> hd t = CHR ''+'') then tl t else t);
          ds = takeWhile is_digit u
      in if ds = [] then None
         else Some (if neg then - digits_value ds else digits_value ds))"

text \<open>
  \<^verbatim>\<open>LIMIT n OFFSET m\<close>. Postgres rejects a negative limit or offset; SQLite, behind
  \<^verbatim>\<open>D1Storage\<close>, reads a negative limit as no limit and a negative offset as zero.
\<close>

definition sql_limit_offset :: "backend \<Rightarrow> int \<Rightarrow> int \<Rightarrow> 'a list \<Rightarrow> db_error + 'a list" where
  "sql_limit_offset b lim off rows =
     (case b of
        PostgresStorage \<Rightarrow>
          if lim < 0 \<or> off < 0 then Inl NegativeLimitOrOffset
          else Inr (take (nat lim) (drop (nat off) rows))
      | D1Storage \<Rightarrow>
          Inr (if lim < 0 then drop (nat off) rows else take (nat lim) (drop (nat off) rows)))"

definition maxRecords_of :: "env \<Rightarrow> int option" where
  "maxRecords_of e =
     parseInt (case MAX_PLAY_RECORDS_PER_USER e of
                 None \<Rightarrow> ''100''
               | Some s \<Rightarrow> if s = [] then ''100'' else s)"

definition cleanupOldPlayRecords :: "backend \<Rightarrow> env \<Rightarrow> db \<Rightarrow> string \<Rightarrow> db_error + db" where
  "cleanupOldPlayRecords b e st userName =
     (case maxRecords_of e of
        None \<Rightarrow> Inl NotANumber
      | Some maxRecords \<Rightarrow>
          let threshold = maxRecords + 10;
              count = int (length (filter (\<lambda>r. pr_username r = userName) (play_records st)))
          in if count \<le> threshold then Inr st
             else
               (case sql_limit_offset b maxRecords 0
                       (order_by_desc pr_save_time
                          (filter (\<lambda>r. pr_username r = userName) (play_records st))) of
                  Inl err \<Rightarrow> Inl err
                | Inr keep \<Rightarrow>
                    Inr (st\<lparr>play_records :=
                              filter (\<lambda>r. \<not> (pr_username r = userName \<and>
                                              pr_key r \<notin> set (map pr_key keep)))
                                     (play_records st)\<rparr>)))"

section \<open>Search history\<close>

definition getSearchHistory :: "db \<Rightarrow> string \<Rightarrow> string list" where
  "getSearchHistory st userName =
     map sh_keyword
       (take 20 (order_by_desc sh_timestamp
                   (filter (\<lambda>r. sh_username r = userName) (search_history st))))"

text \<open>
  \<^verbatim>\<open>addSearchHistory\<close>: the upsert on \<^verbatim>\<open>UNIQUE(username, keyword)\<close> (a new row takes
  the next value of the \<^verbatim>\<open>id\<close> sequence and needs its user to exist), then the count,
  then the delete of every row of the user whose \<^verbatim>\<open>id\<close> is not among the twenty with
  the latest timestamps. \<open>now\<close> is \<^verbatim>\<open>Date.now()\<close>.
\<close>

definition upsert_search :: "int \<Rightarrow> db \<Rightarrow> string \<Rightarrow> string \<Rightarrow> db_error + db" where
  "upsert_search now st userName keyword =
     (if \<exists>r \<in> set (search_history st). sh_username r = userName \<and> sh_keyword r = keyword then
        Inr (st\<lparr>search_history :=
                  map (\<lambda>r. if sh_username r = userName \<and> sh_keyword r = keyword
                            then r\<lparr>sh_timestamp := now\<rparr> else r)
                      (search_history st),
                search_history_id_seq := search_history_id_seq st + 1\<rparr>)
      else if userName \<notin> set (map u_username (users st)) then Inl ForeignKeyViolation
      else
        Inr (st\<lparr>search_history := search_history st @
                  [\<lparr>sh_id = search_history_id_seq st + 1, sh_username = userName,
                    sh_keyword = keyword, sh_timestamp = now\<rparr>],
                search_history_id_seq := search_history_id_seq st + 1\<rparr>))"

definition trim_search :: "db \<Rightarrow> string \<Rightarrow> db" where
  "trim_search st userName =
     (let count = length (filter (\<lambda>r. sh_username r = userName) (search_history st))
      in if count > 20 then
           st\<lparr>search_history :=
                filter (\<lambda>r. \<not> (sh_username r = userName \<and>
                                sh_id r \<notin> set (map sh_id
                                  (take 20 (order_by_desc sh_timestamp
                                     (filter (\<lambda>r. sh_username r = userName)
                                        (search_history st)))))))
                       (search_history st)\<rparr>
         else st)"

definition addSearchHistory :: "int \<Rightarrow> db \<Rightarrow> string \<Rightarrow> string \<Rightarrow> db_error + db" where
  "addSearchHistory now st userName keyword =
     (case upsert_search now st userName keyword of
        Inl err \<Rightarrow> Inl err
      | Inr st1 \<Rightarrow> Inr (trim_search st1 userName))"

definition deleteSearchHistory :: "db \<Rightarrow> string \<Rightarrow> string option \<Rightarrow> db" where
  "deleteSearchHistory st userName keyword =
     (if keyword \<noteq> None \<and> keyword \<noteq> Some [] then
        st\<lparr>search_history :=
             filter (\<lambda>r. \<not> (sh_username r = userName \<and> Some (sh_keyword r) = keyword))
                    (search_history st)\<rparr>
      else
        st\<lparr>search_history := filter (\<lambda>r. sh_username r \<noteq> userName) (search_history st)\<rparr>)"

section \<open>Deleting a user\<close>

text \<open>
  \<^verbatim>\<open>DELETE FROM users WHERE username = ?\<close>. Every table that references
  \<^verbatim>\<open>users(username)\<close> does so \<^verbatim>\<open>ON DELETE CASCADE\<close>: when a row of the user is
  deleted, the rows that reference it go with it. Without such a row nothing is deleted.
\<close>

definition delete_user_rows :: "db \<Rightarrow> string \<Rightarrow> db" where
  "delete_user_rows st userName =
     (if userName \<in> set (map u_username (users st)) then
        st\<lparr>users := filter (\<lambda>r. u_username r \<noteq> userName) (users st),
           play_records := filter (\<lambda>r. pr_username r \<noteq> userName) (play_records st),
           favorites := filter (\<lambda>r. fav_username r \<noteq> userName) (favorites st),
           search_history := filter (\<lambda>r. sh_username r \<noteq> userName) (search_history st),
           skip_configs := filter (\<lambda>r. sk_username r \<noteq> userName) (skip_configs st),
           danmaku_filter_configs :=
             filter (\<lambda>r. dm_username r \<noteq> userName) (danmaku_filter_configs st),
           notifications := filter (\<lambda>r. nt_username r \<noteq> userName) (notifications st),
           user_movie_requests :=
             filter (\<lambda>r. umr_username r \<noteq> userName) (user_movie_requests st),
           favorite_check_times :=
             filter (\<lambda>r. fct_username r \<noteq> userName) (favorite_check_times st)\<rparr>
      else st)"

definition deleteUser :: "db \<Rightarrow> string \<Rightarrow> db" where
  "deleteUser st userName = delete_user_rows st userName"

definition deleteUserV2 :: "db \<Rightarrow> string \<Rightarrow> db" where
  "deleteUserV2 st userName = cache_delete userName (delete_user_rows st userName)"

section \<open>Administrator configuration\<close>

text \<open>
  \<^verbatim>\<open>JSON.stringify\<close> and \<^verbatim>\<open>JSON.parse\<close> are the platform's; they are parameters
  here. \<open>parse\<close> gives \<open>None\<close> where \<^verbatim>\<open>JSON.parse\<close> throws, which
  \<^verbatim>\<open>getAdminConfig\<close> catches and answers with null.
\<close>

definition getAdminConfig :: "(string \<Rightarrow> 'c option) \<Rightarrow> db \<Rightarrow> 'c option" where
  "getAdminConfig parse st =
     (case first (filter (\<lambda>r. ac_id r = 1) (admin_config st)) of
        None \<Rightarrow> None
      | Some result \<Rightarrow> parse (ac_config result))"

definition setAdminConfig :: "('c \<Rightarrow> string) \<Rightarrow> int \<Rightarrow> db \<Rightarrow> 'c \<Rightarrow> db" where
  "setAdminConfig stringify now st config =
     (if \<exists>r \<in> set (admin_config st). ac_id r = 1 then
        st\<lparr>admin_config :=
             map (\<lambda>r. if ac_id r = 1
                       then r\<lparr>ac_config := stringify config, ac_updated_at := now\<rparr> else r)
                 (admin_config st)\<rparr>
      else
        st\<lparr>admin_config := admin_config st @
             [\<lparr>ac_id = 1, ac_config = stringify config, ac_updated_at = now\<rparr>]\<rparr>)"

section \<open>The paged user list\<close>

definition truthy :: "string option \<Rightarrow> bool" where
  "truthy x = (case x of None \<Rightarrow> False | Some s \<Rightarrow> s \<noteq> [])"

definition row_entry :: "user_row \<Rightarrow> user_entry" where
  "row_entry usr =
     \<lparr>role = u_role usr, banned = (u_banned usr = 1), tags = u_tags usr,
      oidcSub = u_oidc_sub usr, enabledApis = u_enabled_apis usr,
      created_at = u_created_at usr, username = u_username usr\<rparr>"

definition owner_entry :: "string \<Rightarrow> user_info option \<Rightarrow> user_entry" where
  "owner_entry ownerUsername ownerInfo =
     (case ownerInfo of
        None \<Rightarrow>
          \<lparr>role = role_owner, banned = False, tags = None, oidcSub = None,
           enabledApis = None, created_at = 0, username = ownerUsername\<rparr>
      | Some info \<Rightarrow>
          \<lparr>role = role_owner, banned = banned info, tags = tags info, oidcSub = oidcSub info,
           enabledApis = enabledApis info, created_at = created_at info,
           username = ownerUsername\<rparr>)"

text \<open>
  \<^verbatim>\<open>getUserListV2(offset, limit, ownerUsername)\<close> returns the page and the total, and
  leaves the state \<^verbatim>\<open>getUserInfoV2\<close> left. An error of the page query is caught and
  answered with an empty page and total 0.
\<close>

definition getUserListV2 ::
  "backend \<Rightarrow> env \<Rightarrow> int \<Rightarrow> db \<Rightarrow> int \<Rightarrow> int \<Rightarrow> string option \<Rightarrow>
   (user_entry list \<times> int) \<times> db" where
  "getUserListV2 b e now st offset limit ownerUsername =
     (let total0 = int (length (users st));
          (ownerInfo, st1) =
             (if truthy ownerUsername then getUserInfoV2 b e now st (the ownerUsername)
              else (None, st));
          ownerInDatabase =
             (truthy ownerUsername \<and>
              (case ownerInfo of None \<Rightarrow> False | Some info \<Rightarrow> created_at info \<noteq> 0));
          total = (if truthy ownerUsername \<and> \<not> ownerInDatabase then total0 + 1 else total0);
          actualLimit =
             (if truthy ownerUsername \<and> \<not> ownerInDatabase \<and> offset = 0 then limit - 1
              else limit);
          actualOffset =
             (if truthy ownerUsername \<and> \<not> ownerInDatabase \<and> offset \<noteq> 0 then offset - 1
              else offset)
      in case sql_limit_offset b actualLimit actualOffset
                (order_by_desc u_created_at (users st1)) of
           Inl err \<Rightarrow> (([], 0), st1)
         | Inr result \<Rightarrow>
             let first_entry =
                   (if truthy ownerUsername \<and> offset = 0
                    then [owner_entry (the ownerUsername) ownerInfo] else []);
                 others =
                   map row_entry
                     (filter (\<lambda>usr. \<not> (truthy ownerUsername \<and>
                                          Some (u_username usr) = ownerUsername))
                        result)
             in ((first_entry @ others, total), st1))"

section \<open>The storage operations as a whole\<close>

text \<open>
  \<^verbatim>\<open>clearAllData\<close> empties the tables it names; \<^verbatim>\<open>users\<close> and
  \<^verbatim>\<open>admin_config\<close> are not among them.
\<close>

definition clearAllData :: "db \<Rightarrow> db" where
  "clearAllData st =
     st\<lparr>play_records := [], favorites := [], search_history := [], skip_configs := [],
        danmaku_filter_configs := [], notifications := [], user_movie_requests := [],
        favorite_check_times := []\<rparr>"

text \<open>
  The methods of the storage classes that write to a table of the model, each with its
  arguments. The remaining methods (favorites, skip configs, danmaku filters,
  notifications, movie requests, music, global values, check times) write to other tables
  than \<^verbatim>\<open>users\<close> and are not listed.
\<close>

datatype storage_op =
    SetPlayRecord string string PlayRecord
  | DeletePlayRecord string string
  | CleanupOldPlayRecords string
  | MigratePlayRecords string
  | MigrateFavorites string
  | MigrateSkipConfigs string
  | ChangePassword string string
  | DeleteUser string
  | GetUserInfoV2 string
  | CreateUserV2 string string role "string list option" "string option" "string list option"
  | GetUserListV2 int int "string option"
  | UpdateUserInfoV2 string user_updates
  | ChangePasswordV2 string string
  | DeleteUserV2 string
  | SetUserPasswordHash string string
  | CreateUserWithHashedPassword string string role int "string list option" "string option"
      "string list option" "bool option"
  | SetUserEmail string string
  | SetEmailNotificationPreference string bool
  | UpdateLastMovieRequestTime string int
  | AddSearchHistory string string
  | DeleteSearchHistory string "string option"
  | SetAdminConfig string
  | ClearAllData

text \<open>A method that throws leaves the database as the statements before the throw left it.\<close>

definition or_unchanged :: "db \<Rightarrow> db_error + db \<Rightarrow> db" where
  "or_unchanged st res = (case res of Inl err \<Rightarrow> st | Inr st' \<Rightarrow> st')"

fun exec :: "backend \<Rightarrow> env \<Rightarrow> int \<Rightarrow> db \<Rightarrow> storage_op \<Rightarrow> db" where
  "exec b e now st (SetPlayRecord u k r) = or_unchanged st (setPlayRecord b st u k r)"
| "exec b e now st (DeletePlayRecord u k) = deletePlayRecord st u k"
| "exec b e now st (CleanupOldPlayRecords u) = or_unchanged st (cleanupOldPlayRecords b e st u)"
| "exec b e now st (MigratePlayRecords u) = migratePlayRecords b st u"
| "exec b e now st (MigrateFavorites u) = migrateFavorites b st u"
| "exec b e now st (MigrateSkipConfigs u) = migrateSkipConfigs b st u"
| "exec b e now st (ChangePassword u p) = changePassword st u p"
| "exec b e now st (DeleteUser u) = deleteUser st u"
| "exec b e now st (GetUserInfoV2 u) = snd (getUserInfoV2 b e now st u)"
| "exec b e now st (CreateUserV2 u p r tgs oidc apis) =
     or_unchanged st (createUserV2 b now st u p r tgs oidc apis)"
| "exec b e now st (GetUserListV2 off lim owner) = snd (getUserListV2 b e now st off lim owner)"
| "exec b e now st (UpdateUserInfoV2 u upd) = or_unchanged st (updateUserInfoV2 st u upd)"
| "exec b e now st (ChangePasswordV2 u p) = changePasswordV2 b st u p"
| "exec b e now st (DeleteUserV2 u) = deleteUserV2 st u"
| "exec b e now st (SetUserPasswordHash u h) = setUserPasswordHash st u h"
| "exec b e now st (CreateUserWithHashedPassword u h r t tgs oidc apis bnd) =
     or_unchanged st (createUserWithHashedPassword st u h r t tgs oidc apis bnd)"
| "exec b e now st (SetUserEmail u m) = setUserEmail st u m"
| "exec b e now st (SetEmailNotificationPreference u en) =
     setEmailNotificationPreference st u en"
| "exec b e now st (UpdateLastMovieRequestTime u t) = updateLastMovieRequestTime st u t"
| "exec b e now st (AddSearchHistory u k) = or_unchanged st (addSearchHistory now st u k)"
| "exec b e now st (DeleteSearchHistory u k) = deleteSearchHistory st u k"
| "exec b e now st (SetAdminConfig text) = setAdminConfig (\<lambda>t. t) now st text"
| "exec b e now st ClearAllData = clearAllData st"

text \<open>A run: operations in order, each with the clock reading it sees.\<close>

fun run :: "backend \<Rightarrow> env \<Rightarrow> db \<Rightarrow> (int \<times> storage_op) list \<Rightarrow> db" where
  "run b e st [] = st"
| "run b e st ((now, op) # ops) = run b e (exec b e now st op) ops"

text \<open>Every row of the user has the flag set.\<close>

definition all_marked :: "(user_row \<Rightarrow> int) \<Rightarrow> string \<Rightarrow> db \<Rightarrow> bool" where
  "all_marked flag userName st =
     list_all (\<lambda>r. u_username r = userName \<longrightarrow> flag r = 1) (users st)"

text \<open>No flag that is 1 in the first row is anything else in the second.\<close>

definition keeps_flags :: "user_row \<Rightarrow> user_row \<Rightarrow> bool" where
  "keeps_flags r r' =
     ((u_playrecord_migrated r = 1 \<longrightarrow> u_playrecord_migrated r' = 1) \<and>
      (u_favorite_migrated r = 1 \<longrightarrow> u_favorite_migrated r' = 1) \<and>
      (u_skip_migrated r = 1 \<longrightarrow> u_skip_migrated r' = 1))"

text \<open>
  Every row of the second state is new with all three flags set, or continues a row of
  the same user of the first state without resetting a flag.
\<close>

definition flags_step :: "db \<Rightarrow> db \<Rightarrow> bool" where
  "flags_step st st' =
     list_all (\<lambda>r'. (u_playrecord_migrated r' = 1 \<and> u_favorite_migrated r' = 1 \<and>
                      u_skip_migrated r' = 1) \<or>
                     list_ex (\<lambda>r. u_username r = u_username r' \<and> keeps_flags r r') (users st))
              (users st')"

definition ex_ops :: "(int \<times> storage_op) list" where
  "ex_ops =
     [(1, UpdateUserInfoV2 ''alice''
            \<lparr>upd_role = Some role_admin, upd_banned = Some True, upd_tags = None,
             upd_oidcSub = None, upd_enabledApis = None\<rparr>),
      (2, ChangePasswordV2 ''alice'' ''new-pw''),
      (3, MigrateFavorites ''bob''),
      (4, DeleteUserV2 ''alice''),
      (5, CreateUserV2 ''alice'' ''pw2'' role_user None None None),
      (6, GetUserListV2 0 20 (Some ''root''))]"

section \<open>Example data\<close>

definition empty_db :: db where
  "empty_db =
     \<lparr>users = [], play_records = [], favorites = [], search_history = [],
      search_history_id_seq = 0, skip_configs = [], danmaku_filter_configs = [],
      notifications = [], user_movie_requests = [], favorite_check_times = [],
      admin_config = [], userInfoCache = (\<lambda>u. None)\<rparr>"

definition ex_env :: env where
  "ex_env = \<lparr>USERNAME = Some ''root'', PASSWORD = Some ''pw'',
             MAX_PLAY_RECORDS_PER_USER = None\<rparr>"

definition ex_alice :: user_row where
  "ex_alice = new_user_row ''alice'' (hashPassword ''alice-pw'') role_user 0 None None None 30"

definition ex_bob :: user_row where
  "ex_bob = new_user_row ''bob'' (hashPassword ''bob-pw'') role_user 1 None None None 20"

definition ex_root :: user_row where
  "ex_root = new_user_row ''root'' [] role_owner 0 None None None 10"

definition ex_db :: db where
  "ex_db = empty_db\<lparr>users := [ex_alice, ex_bob, ex_root]\<rparr>"

definition ex_record :: PlayRecord where
  "ex_record =
     \<lparr>title = ''Show'', source_name = ''tmdb'', cover = ''c.png'', year = ''2024'',
      index = 2, total_episodes = 12, play_time = 300, total_time = 1400,
      save_time = 1700000000000, search_title = ''show'', new_episodes = Some 3\<rparr>"

definition ex_record2 :: PlayRecord where
  "ex_record2 =
     \<lparr>title = ''Show'', source_name = ''tmdb'', cover = [], year = ''2024'',
      index = 3, total_episodes = 12, play_time = 10, total_time = 1400,
      save_time = 1700000050000, search_title = [], new_episodes = None\<rparr>"

text \<open>\<^verbatim>\<open>setPlayRecord\<close> followed by \<^verbatim>\<open>getPlayRecord\<close> on the same key pair.\<close>

definition set_then_get ::
  "backend \<Rightarrow> db \<Rightarrow> string \<Rightarrow> string \<Rightarrow> PlayRecord \<Rightarrow> db_error + PlayRecord option" where
  "set_then_get b st userName key record =
     (case setPlayRecord b st userName key record of
        Inl err \<Rightarrow> Inl err
      | Inr st' \<Rightarrow> Inr (getPlayRecord b st' userName key))"

text \<open>The columns \<^verbatim>\<open>setPlayRecord\<close> lists under both backends, as fields of the record.\<close>

definition listed_columns ::
  "PlayRecord \<Rightarrow> (string \<times> string \<times> string \<times> string) \<times> (int \<times> int \<times> int \<times> int \<times> int) \<times> string"
  where
  "listed_columns r =
     ((title r, source_name r, cover r, year r),
      (index r, total_episodes r, play_time r, total_time r, save_time r),
      search_title r)"

text \<open>The primary key of \<^verbatim>\<open>play_records\<close>.\<close>

definition play_pk :: "db \<Rightarrow> bool" where
  "play_pk st = distinct (map (\<lambda>r. (pr_username r, pr_key r)) (play_records st))"

definition ex_play :: "string \<Rightarrow> string \<Rightarrow> int \<Rightarrow> play_row" where
  "ex_play userName key t =
     \<lparr>pr_username = userName, pr_key = key, pr_title = ''Show'', pr_source_name = ''tmdb'',
      pr_cover = Some [], pr_year = Some ''2024'', pr_episode_index = 1,
      pr_total_episodes = 12, pr_play_time = 0, pr_total_time = 1400, pr_save_time = t,
      pr_search_title = Some [], pr_new_episodes = None\<rparr>"

definition ex_db_owned :: db where
  "ex_db_owned =
     ex_db\<lparr>play_records := [ex_play ''alice'' ''tmdb+1'' 5, ex_play ''bob'' ''tmdb+1'' 6],
           search_history :=
             [\<lparr>sh_id = 1, sh_username = ''alice'', sh_keyword = ''dune'', sh_timestamp = 8\<rparr>,
              \<lparr>sh_id = 2, sh_username = ''bob'', sh_keyword = ''dune'', sh_timestamp = 9\<rparr>],
           search_history_id_seq := 2,
           skip_configs :=
             [\<lparr>sk_username = ''alice'', sk_key = ''tmdb+1'', sk_enable = 1, sk_intro_time = 90,
               sk_outro_time = 60\<rparr>],
           danmaku_filter_configs := [\<lparr>dm_username = ''alice'', dm_rules = ''[]''\<rparr>],
           notifications :=
             [\<lparr>nt_id = ''n1'', nt_username = ''bob'', nt_type = ''system'', nt_title = ''hi'',
               nt_message = ''m'', nt_timestamp = 3, nt_read = 0, nt_metadata = None\<rparr>]\<rparr>"

text \<open>The JSON text of a boolean, for an example configuration.\<close>

definition bool_stringify :: "bool \<Rightarrow> string" where
  "bool_stringify v = (if v then ''true'' else ''false'')"

definition bool_parse :: "string \<Rightarrow> bool option" where
  "bool_parse s = (if s = ''true'' then Some True else if s = ''false'' then Some False else None)"

text \<open>
  The foreign keys of the schema: every row of a table that references
  \<^verbatim>\<open>users(username)\<close> belongs to a stored user.
\<close>

definition fk_ok :: "db \<Rightarrow> bool" where
  "fk_ok st =
     (set (map pr_username (play_records st)) \<subseteq> set (map u_username (users st)) \<and>
      set (map fav_username (favorites st)) \<subseteq> set (map u_username (users st)) \<and>
      set (map sh_username (search_history st)) \<subseteq> set (map u_username (users st)) \<and>
      set (map sk_username (skip_configs st)) \<subseteq> set (map u_username (users st)) \<and>
      set (map dm_username (danmaku_filter_configs st)) \<subseteq> set (map u_username (users st)) \<and>
      set (map nt_username (notifications st)) \<subseteq> set (map u_username (users st)) \<and>
      set (map umr_username (user_movie_requests st)) \<subseteq> set (map u_username (users st)) \<and>
      set (map fct_username (favorite_check_times st)) \<subseteq> set (map u_username (users st)))"

text \<open>No row of any table that references \<^verbatim>\<open>users\<close> belongs to the user.\<close>

definition owns_nothing :: "db \<Rightarrow> string \<Rightarrow> bool" where
  "owns_nothing st userName =
     (userName \<notin> set (map pr_username (play_records st)) \<and>
      userName \<notin> set (map fav_username (favorites st)) \<and>
      userName \<notin> set (map sh_username (search_history st)) \<and>
      userName \<notin> set (map sk_username (skip_configs st)) \<and>
      userName \<notin> set (map dm_username (danmaku_filter_configs st)) \<and>
      userName \<notin> set (map nt_username (notifications st)) \<and>
      userName \<notin> set (map umr_username (user_movie_requests st)) \<and>
      userName \<notin> set (map fct_username (favorite_check_times st)))"

text \<open>The rows of a user are the same, in the same order, in both states.\<close>

definition same_rows_of :: "string \<Rightarrow> db \<Rightarrow> db \<Rightarrow> bool" where
  "same_rows_of v st st' =
     (filter (\<lambda>r. u_username r = v) (users st') = filter (\<lambda>r. u_username r = v) (users st) \<and>
      filter (\<lambda>r. pr_username r = v) (play_records st')
        = filter (\<lambda>r. pr_username r = v) (play_records st) \<and>
      filter (\<lambda>r. fav_username r = v) (favorites st')
        = filter (\<lambda>r. fav_username r = v) (favorites st) \<and>
      filter (\<lambda>r. sh_username r = v) (search_history st')
        = filter (\<lambda>r. sh_username r = v) (search_history st) \<and>
      filter (\<lambda>r. sk_username r = v) (skip_configs st')
        = filter (\<lambda>r. sk_username r = v) (skip_configs st) \<and>
      filter (\<lambda>r. dm_username r = v) (danmaku_filter_configs st')
        = filter (\<lambda>r. dm_username r = v) (danmaku_filter_configs st) \<and>
      filter (\<lambda>r. nt_username r = v) (notifications st')
        = filter (\<lambda>r. nt_username r = v) (notifications st) \<and>
      filter (\<lambda>r. umr_username r = v) (user_movie_requests st')
        = filter (\<lambda>r. umr_username r = v) (user_movie_requests st) \<and>
      filter (\<lambda>r. fct_username r = v) (favorite_check_times st')
        = filter (\<lambda>r. fct_username r = v) (favorite_check_times st))"

text \<open>The primary key and the \<^verbatim>\<open>CHECK(id = 1)\<close> of \<^verbatim>\<open>admin_config\<close>.\<close>

definition admin_ok :: "db \<Rightarrow> bool" where
  "admin_ok st =
     (distinct (map ac_id (admin_config st)) \<and> set (map ac_id (admin_config st)) \<subseteq> {1})"

definition ex_env_max1 :: env where
  "ex_env_max1 = ex_env\<lparr>MAX_PLAY_RECORDS_PER_USER := Some ''1''\<rparr>"

definition ex_db_many :: db where
  "ex_db_many =
     ex_db\<lparr>play_records :=
             map (\<lambda>c. ex_play ''alice'' [c] (of_char c)) ''abcdefghijkl'' @
             [ex_play ''bob'' ''tmdb+1'' 6]\<rparr>"

text \<open>
  A sequence of \<^verbatim>\<open>addSearchHistory\<close> calls, each with its clock reading, user and
  keyword. A call that throws leaves the database as it was.
\<close>

fun add_all :: "db \<Rightarrow> (int \<times> string \<times> string) list \<Rightarrow> db" where
  "add_all st [] = st"
| "add_all st ((now, userName, keyword) # calls) =
     (case addSearchHistory now st userName keyword of
        Inl err \<Rightarrow> add_all st calls
      | Inr st' \<Rightarrow> add_all st' calls)"

text \<open>
  The constraints of \<^verbatim>\<open>search_history\<close>: the primary key \<^verbatim>\<open>id\<close>, drawn from the
  sequence, and \<^verbatim>\<open>UNIQUE(username, keyword)\<close>.
\<close>

definition search_keys_ok :: "db \<Rightarrow> bool" where
  "search_keys_ok st =
     (distinct (map sh_id (search_history st)) \<and>
      list_all (\<lambda>r. sh_id r \<le> search_history_id_seq st) (search_history st) \<and>
      distinct (map (\<lambda>r. (sh_username r, sh_keyword r)) (search_history st)))"

text \<open>The constraints, and at most twenty entries for each user.\<close>

definition search_ok :: "db \<Rightarrow> bool" where
  "search_ok st =
     (search_keys_ok st \<and>
      list_all (\<lambda>u. length (filter (\<lambda>r. sh_username r = u) (search_history st)) \<le> 20)
               (map sh_username (search_history st)))"

definition ex_calls :: "(int \<times> string \<times> string) list" where
  "ex_calls = [(1, ''alice'', ''dune''), (2, ''alice'', ''solaris''), (3, ''ghost'', ''x''),
               (4, ''alice'', ''dune'')]"

text \<open>The primary key of \<^verbatim>\<open>users\<close>.\<close>

definition users_pk :: "db \<Rightarrow> bool" where
  "users_pk st = distinct (map u_username (users st))"

section \<open>Properties\<close>




lemma toString16_nonempty: "toString16 n \<noteq> []"
  by (simp add: toString16.simps [of n])




text \<open>The digest of a known input: \<^verbatim>\<open>hashPassword('abc')\<close>, evaluated.\<close>

lemma hashPassword_abc:
  "hashPassword ''abc'' = ''ba7816bf8f01cfea414140de5dae2223b00361a396177a9cb410ff61f20015ad''"
  by code_simp


subsection \<open>Rows and keys\<close>

lemma filter_key_unique:
  "distinct (map f xs) \<Longrightarrow> x \<in> set xs \<Longrightarrow> filter (\<lambda>y. f y = f x) xs = [x]"
proof (induction xs)
  case Nil
  then show ?case by simp
next
  case (Cons a xs)
  show ?case
  proof (cases "a = x")
    case True
    with Cons.prems have "\<forall>y \<in> set xs. f y \<noteq> f x" by (auto simp: image_iff)
    then have "filter (\<lambda>y. f y = f x) xs = []" by (simp add: filter_empty_conv)
    with True show ?thesis by simp
  next
    case False
    with Cons.prems have "x \<in> set xs" and "f a \<noteq> f x" and "distinct (map f xs)"
      by (auto simp: image_iff)
    with Cons.IH show ?thesis by simp
  qed
qed

lemma first_filter_key:
  "distinct (map f xs) \<Longrightarrow> x \<in> set xs \<Longrightarrow> first (filter (\<lambda>y. f y = f x) xs) = Some x"
  by (simp add: filter_key_unique first_def)


lemma first_filter_Some: "first (filter P xs) = Some x \<Longrightarrow> x \<in> set xs \<and> P x"
proof -
  assume a: "first (filter P xs) = Some x"
  then obtain rest where "filter P xs = x # rest"
    by (auto simp: first_def split: list.splits)
  then have "x \<in> set (filter P xs)" by simp
  then show ?thesis by simp
qed

lemma first_filter_None_iff: "first (filter P xs) = None \<longleftrightarrow> (\<forall>x \<in> set xs. \<not> P x)"
proof -
  have "first (filter P xs) = None \<longleftrightarrow> filter P xs = []"
    by (simp add: first_def split: list.splits)
  then show ?thesis by (simp add: filter_empty_conv)
qed

subsection \<open>Password verification\<close>

lemma user_lookup:
  "users_pk st \<Longrightarrow> r \<in> set (users st) \<Longrightarrow>
   filter (\<lambda>x. u_username x = u_username r) (users st) = [r]"
  unfolding users_pk_def by (rule filter_key_unique)

lemma active_lookup_banned:
  assumes "users_pk st" and "r \<in> set (users st)" and "u_banned r \<noteq> 0"
  shows "filter (\<lambda>x. u_username x = u_username r \<and> u_banned x = 0) (users st) = []"
proof -
  have "filter (\<lambda>x. u_username x = u_username r \<and> u_banned x = 0) (users st)
          = filter (\<lambda>x. u_banned x = 0) (filter (\<lambda>x. u_username x = u_username r) (users st))"
    by (simp add: conj_commute)
  with assms show ?thesis by (simp add: user_lookup)
qed






text \<open>
  C9. A stored user whose \<^verbatim>\<open>banned\<close> flag is set, and who does not present the
  credentials of the environment's site owner, is refused by \<^verbatim>\<open>verifyUser\<close> whatever
  the password, the right one included; \<^verbatim>\<open>verifyUserV2\<close>, which does not look at the
  flag, accepts the same user with the right password.
\<close>

theorem verifyUser_banned_refused:
  assumes "users_pk st" and "r \<in> set (users st)" and "u_username r = userName"
    and "u_banned r \<noteq> 0"
    and "\<not> (USERNAME e = Some userName \<and> PASSWORD e = Some password)"
  shows "\<not> verifyUser e st userName password \<and>
         (u_password_hash r = hashPassword correct \<longrightarrow> verifyUserV2 st userName correct)"
proof
  from active_lookup_banned [OF assms(1,2,4)] assms(3,5)
  show "\<not> verifyUser e st userName password"
    by (auto simp: verifyUser_def first_def)
next
  from user_lookup [OF assms(1,2)] assms(3)
  show "u_password_hash r = hashPassword correct \<longrightarrow> verifyUserV2 st userName correct"
    by (auto simp: verifyUserV2_def first_def)
qed

lemma ex_db_users_pk: "users_pk ex_db"
  by (simp add: users_pk_def ex_db_def ex_alice_def ex_bob_def ex_root_def new_user_row_def)

theorem verifyUser_banned_refused_witness:
  "users_pk ex_db \<and> ex_bob \<in> set (users ex_db) \<and> u_username ex_bob = ''bob'' \<and>
   u_banned ex_bob \<noteq> 0 \<and>
   \<not> (USERNAME ex_env = Some ''bob'' \<and> PASSWORD ex_env = Some ''bob-pw'') \<and>
   \<not> verifyUser ex_env ex_db ''bob'' ''bob-pw'' \<and>
   u_password_hash ex_bob = hashPassword ''bob-pw'' \<and>
   verifyUserV2 ex_db ''bob'' ''bob-pw''"
proof -
  have h1: "ex_bob \<in> set (users ex_db)" by (simp add: ex_db_def)
  have h2: "u_username ex_bob = ''bob''" by (simp add: ex_bob_def new_user_row_def)
  have h3: "u_banned ex_bob \<noteq> 0" by (simp add: ex_bob_def new_user_row_def)
  have h4: "\<not> (USERNAME ex_env = Some ''bob'' \<and> PASSWORD ex_env = Some ''bob-pw'')"
    by (simp add: ex_env_def)
  have h5: "u_password_hash ex_bob = hashPassword ''bob-pw''"
    by (simp add: ex_bob_def new_user_row_def)
  from verifyUser_banned_refused [OF ex_db_users_pk h1 h2 h3 h4, of "''bob-pw''"] h5
  show ?thesis using ex_db_users_pk h1 h2 h3 h4 by blast
qed











subsection \<open>Play records: upsert and read back\<close>

lemma first_filter_map:
  assumes "\<And>x. P (f x) = P x"
  shows "first (filter P (map f xs)) = map_option f (first (filter P xs))"
proof -
  have "filter P (map f xs) = map f (filter P xs)"
    using assms by (induction xs) simp_all
  then show ?thesis by (cases "filter P xs") (simp_all add: first_def)
qed

lemma getPlayRecord_after_upsert:
  assumes "upsert_play_record b st userName key r = Inr st'"
  shows "getPlayRecord b st' userName key =
           Some (r\<lparr>new_episodes :=
                     (if b = D1Storage then num_or_null (new_episodes r) else None)\<rparr>)"
proof (cases "\<exists>x \<in> set (play_records st). pr_username x = userName \<and> pr_key x = key")
  case True
  define upd where "upd = (\<lambda>x :: play_row.
      if pr_username x = userName \<and> pr_key x = key
      then x\<lparr>pr_title := title r, pr_source_name := source_name r,
             pr_cover := Some (cover r), pr_year := Some (year r),
             pr_episode_index := index r, pr_total_episodes := total_episodes r,
             pr_play_time := play_time r, pr_total_time := total_time r,
             pr_save_time := save_time r, pr_search_title := Some (search_title r),
             pr_new_episodes := (if b = D1Storage then num_or_null (new_episodes r)
                                 else pr_new_episodes x)\<rparr>
      else x)"
  from True assms have st': "play_records st' = map upd (play_records st)"
    by (auto simp: upsert_play_record_def upd_def)
  have keep: "(pr_username (upd x) = userName \<and> pr_key (upd x) = key)
                = (pr_username x = userName \<and> pr_key x = key)" for x
    by (simp add: upd_def)
  from True obtain y where
    y: "first (filter (\<lambda>x. pr_username x = userName \<and> pr_key x = key) (play_records st))
          = Some y"
    using first_filter_None_iff
      [of "\<lambda>x. pr_username x = userName \<and> pr_key x = key" "play_records st"]
    by (cases "first (filter (\<lambda>x. pr_username x = userName \<and> pr_key x = key)
                 (play_records st))") auto
  from first_filter_Some [OF y] have ym: "pr_username y = userName \<and> pr_key y = key"
    by simp
  have "first (filter (\<lambda>x. pr_username x = userName \<and> pr_key x = key) (play_records st'))
          = Some (upd y)"
    unfolding st'
    using first_filter_map
      [of "\<lambda>x. pr_username x = userName \<and> pr_key x = key" upd "play_records st"] keep y
    by simp
  moreover have "rowToPlayRecord b (upd y) =
       r\<lparr>new_episodes := (if b = D1Storage then num_or_null (new_episodes r) else None)\<rparr>"
    using ym
    by (cases b) (simp_all add: upd_def rowToPlayRecord_def or_empty_def num_or_null_def
        split: option.splits)
  ultimately show ?thesis by (simp add: getPlayRecord_def)
next
  case False
  then have none: "filter (\<lambda>x. pr_username x = userName \<and> pr_key x = key) (play_records st) = []"
    by (auto simp: filter_empty_conv)
  from False assms obtain row where
    st': "play_records st' = play_records st @ [row]" and
    row: "row = \<lparr>pr_username = userName, pr_key = key, pr_title = title r,
                 pr_source_name = source_name r, pr_cover = Some (cover r),
                 pr_year = Some (year r), pr_episode_index = index r,
                 pr_total_episodes = total_episodes r,
                 pr_play_time = play_time r, pr_total_time = total_time r,
                 pr_save_time = save_time r,
                 pr_search_title = Some (search_title r),
                 pr_new_episodes =
                   (if b = D1Storage then num_or_null (new_episodes r) else None)\<rparr>"
    by (auto simp: upsert_play_record_def split: if_splits)
  have "first (filter (\<lambda>x. pr_username x = userName \<and> pr_key x = key) (play_records st'))
          = Some row"
    using none by (simp add: st' row first_def)
  moreover have "rowToPlayRecord b row =
       r\<lparr>new_episodes := (if b = D1Storage then num_or_null (new_episodes r) else None)\<rparr>"
    by (cases b) (simp_all add: row rowToPlayRecord_def or_empty_def num_or_null_def
        split: option.splits)
  ultimately show ?thesis by (simp add: getPlayRecord_def)
qed

lemma upsert_play_record_succeeds:
  "userName \<in> set (map u_username (users st)) \<Longrightarrow> \<exists>st'. upsert_play_record b st userName key r = Inr st'"
  by (simp add: upsert_play_record_def)

lemma upsert_play_record_users: "upsert_play_record b st userName key r = Inr st' \<Longrightarrow> users st' = users st"
  by (auto simp: upsert_play_record_def split: if_splits)

lemma upsert_play_record_keys:
  assumes "upsert_play_record b st userName key r = Inr st'"
  shows "map (\<lambda>x. (pr_username x, pr_key x)) (play_records st') =
           (if (userName, key) \<in> set (map (\<lambda>x. (pr_username x, pr_key x)) (play_records st))
            then map (\<lambda>x. (pr_username x, pr_key x)) (play_records st)
            else map (\<lambda>x. (pr_username x, pr_key x)) (play_records st) @ [(userName, key)])"
proof (cases "\<exists>x \<in> set (play_records st). pr_username x = userName \<and> pr_key x = key")
  case True
  then have m: "(userName, key) \<in> set (map (\<lambda>x. (pr_username x, pr_key x)) (play_records st))"
    by force
  from True assms have
    "map (\<lambda>x. (pr_username x, pr_key x)) (play_records st')
       = map (\<lambda>x. (pr_username x, pr_key x)) (play_records st)"
    by (auto simp: upsert_play_record_def)
  with m show ?thesis by simp
next
  case False
  then have m: "(userName, key) \<notin> set (map (\<lambda>x. (pr_username x, pr_key x)) (play_records st))"
    by force
  from False assms have
    "map (\<lambda>x. (pr_username x, pr_key x)) (play_records st')
       = map (\<lambda>x. (pr_username x, pr_key x)) (play_records st) @ [(userName, key)]"
    by (auto simp: upsert_play_record_def split: if_splits)
  with m show ?thesis by simp
qed

lemma upsert_play_record_pk:
  assumes "play_pk st" and "upsert_play_record b st userName key r = Inr st'"
  shows "play_pk st'"
  using assms(1) upsert_play_record_keys [OF assms(2)]
  by (auto simp: play_pk_def split: if_splits)

lemma count_key_pk:
  assumes "distinct (map f xs)"
  shows "length (filter (\<lambda>x. f x = k) xs) = (if k \<in> set (map f xs) then 1 else 0)"
proof (cases "k \<in> set (map f xs)")
  case True
  then obtain x where x: "x \<in> set xs" "f x = k" by auto
  from filter_key_unique [OF assms x(1)] x(2) show ?thesis using True by simp
next
  case False
  then have "filter (\<lambda>x. f x = k) xs = []" by (auto simp: filter_empty_conv)
  with False show ?thesis by simp
qed

lemma upsert_play_record_one_row:
  assumes "play_pk st" and "upsert_play_record b st userName key r = Inr st'"
  shows "length (filter (\<lambda>x. pr_username x = userName \<and> pr_key x = key) (play_records st')) = 1"
proof -
  have pk': "distinct (map (\<lambda>x. (pr_username x, pr_key x)) (play_records st'))"
    using upsert_play_record_pk [OF assms] by (simp add: play_pk_def)
  have mem: "(userName, key) \<in> set (map (\<lambda>x. (pr_username x, pr_key x)) (play_records st'))"
    using upsert_play_record_keys [OF assms(2)] by (auto split: if_splits)
  have "length (filter (\<lambda>x. (pr_username x, pr_key x) = (userName, key)) (play_records st')) = 1"
    using count_key_pk [OF pk', of "(userName, key)"] mem by simp
  then show ?thesis by simp
qed

lemma setPlayRecord_Inr:
  "setPlayRecord b st userName key r = Inr st' \<Longrightarrow>
   upsert_play_record b st userName key r = Inr st'"
  by (simp add: setPlayRecord_def split: option.splits)

lemma setPlayRecord_bound:
  "bind_error b userName key r = None \<Longrightarrow>
   setPlayRecord b st userName key r = upsert_play_record b st userName key r"
  by (simp add: setPlayRecord_def)

lemma getPlayRecord_after_set:
  assumes "setPlayRecord b st userName key r = Inr st'"
  shows "getPlayRecord b st' userName key =
           Some (r\<lparr>new_episodes :=
                     (if b = D1Storage then num_or_null (new_episodes r) else None)\<rparr>)"
  by (rule getPlayRecord_after_upsert [OF setPlayRecord_Inr [OF assms]])

lemma setPlayRecord_succeeds:
  assumes "bind_error b userName key r = None"
    and "userName \<in> set (map u_username (users st))"
  shows "\<exists>st'. setPlayRecord b st userName key r = Inr st'"
  using upsert_play_record_succeeds [OF assms(2), of b key r]
  by (simp add: setPlayRecord_bound [OF assms(1)])

lemma setPlayRecord_users: "setPlayRecord b st userName key r = Inr st' \<Longrightarrow> users st' = users st"
  by (rule upsert_play_record_users [OF setPlayRecord_Inr])

lemma setPlayRecord_keys:
  assumes "setPlayRecord b st userName key r = Inr st'"
  shows "map (\<lambda>x. (pr_username x, pr_key x)) (play_records st') =
           (if (userName, key) \<in> set (map (\<lambda>x. (pr_username x, pr_key x)) (play_records st))
            then map (\<lambda>x. (pr_username x, pr_key x)) (play_records st)
            else map (\<lambda>x. (pr_username x, pr_key x)) (play_records st) @ [(userName, key)])"
  by (rule upsert_play_record_keys [OF setPlayRecord_Inr [OF assms]])

lemma setPlayRecord_pk:
  assumes "play_pk st" and "setPlayRecord b st userName key r = Inr st'"
  shows "play_pk st'"
  by (rule upsert_play_record_pk [OF assms(1) setPlayRecord_Inr [OF assms(2)]])

lemma setPlayRecord_one_row:
  assumes "play_pk st" and "setPlayRecord b st userName key r = Inr st'"
  shows "length (filter (\<lambda>x. pr_username x = userName \<and> pr_key x = key) (play_records st')) = 1"
  by (rule upsert_play_record_one_row [OF assms(1) setPlayRecord_Inr [OF assms(2)]])

text \<open>
  The error path at a concrete record: an episode index of \<open>2\<^sup>3\<^sup>1\<close> is refused by
  \<^verbatim>\<open>PostgresStorage\<close> and nothing is stored.
\<close>

lemma setPlayRecord_index_out_of_range:
  "setPlayRecord PostgresStorage ex_db ''alice'' ''tmdb+1'' (ex_record\<lparr>index := 2147483648\<rparr>)
     = Inl NumericValueOutOfRange"
  by (simp add: setPlayRecord_def bind_error_def has_nul_def int32_range_def ex_record_def)

lemma ex_record_bound:
  "bind_error b ''alice'' ''tmdb+1'' ex_record = None \<and>
   bind_error b ''alice'' ''tmdb+1'' ex_record2 = None \<and>
   bind_error b ''root'' ''tmdb+1'' ex_record = None"
  by (cases b)
     (simp_all add: bind_error_def has_nul_def int32_range_def int64_range_def ex_record_def
        ex_record2_def)

lemma set_then_get_value:
  assumes "userName \<in> set (map u_username (users st))"
    and "bind_error b userName key r = None"
  shows "set_then_get b st userName key r =
           Inr (Some (r\<lparr>new_episodes :=
                          (if b = D1Storage then num_or_null (new_episodes r) else None)\<rparr>))"
proof -
  from setPlayRecord_succeeds [OF assms(2,1)] obtain st' where
    s: "setPlayRecord b st userName key r = Inr st'" by blast
  from getPlayRecord_after_set [OF s] s show ?thesis by (simp add: set_then_get_def)
qed

lemma listed_columns_new_episodes [simp]:
  "listed_columns (r\<lparr>new_episodes := x\<rparr>) = listed_columns r"
  by (simp add: listed_columns_def)

lemma bind_error_None_iff:
  "bind_error b userName key r = None \<longleftrightarrow>
     (b = D1Storage \<or>
      (\<not> has_nul userName \<and> \<not> has_nul key \<and> \<not> has_nul (title r) \<and>
       \<not> has_nul (source_name r) \<and> \<not> has_nul (cover r) \<and> \<not> has_nul (year r) \<and>
       \<not> has_nul (search_title r) \<and>
       int32_range (index r) \<and> int32_range (total_episodes r) \<and>
       int64_range (play_time r) \<and> int64_range (total_time r) \<and> int64_range (save_time r)))"
  by (cases b) (auto simp: bind_error_def)

lemma setPlayRecord_refused:
  "bind_error b userName key r = Some err \<Longrightarrow> setPlayRecord b st userName key r = Inl err"
  by (simp add: setPlayRecord_def)

text \<open>
  C4, as the code has it. For a user who has a row in \<^verbatim>\<open>users\<close>, in a table that
  respects its primary key, and for records that the database accepts when they are bound
  (under \<^verbatim>\<open>PostgresStorage\<close>: no U+0000 in the user name, the key and the text fields,
  index and total episodes within 32 bits, the three times within 64 bits):
  \<^verbatim>\<open>setPlayRecord\<close> succeeds and keeps the key unique, exactly one row carries the pair
  afterwards, \<^verbatim>\<open>getPlayRecord\<close> returns a record whose listed columns (title, source
  name, cover, year, index, total episodes, play time, total time, save time, search
  title) are the ones written, and a second \<^verbatim>\<open>setPlayRecord\<close> on the pair adds no row
  and overwrites those columns.
\<close>

theorem setPlayRecord_upsert_roundtrip:
  assumes "play_pk st" and "userName \<in> set (map u_username (users st))"
    and "bind_error b userName key r1 = None" and "bind_error b userName key r2 = None"
  shows "\<exists>st1 st2.
           setPlayRecord b st userName key r1 = Inr st1 \<and> play_pk st1 \<and>
           length (filter (\<lambda>x. pr_username x = userName \<and> pr_key x = key)
                     (play_records st1)) = 1 \<and>
           map_option listed_columns (getPlayRecord b st1 userName key)
             = Some (listed_columns r1) \<and>
           setPlayRecord b st1 userName key r2 = Inr st2 \<and> play_pk st2 \<and>
           length (play_records st2) = length (play_records st1) \<and>
           length (filter (\<lambda>x. pr_username x = userName \<and> pr_key x = key)
                     (play_records st2)) = 1 \<and>
           map_option listed_columns (getPlayRecord b st2 userName key)
             = Some (listed_columns r2)"
proof -
  from setPlayRecord_succeeds [OF assms(3,2)] obtain st1 where
    s1: "setPlayRecord b st userName key r1 = Inr st1" by blast
  have pk1: "play_pk st1" by (rule setPlayRecord_pk [OF assms(1) s1])
  have u1: "userName \<in> set (map u_username (users st1))"
    using setPlayRecord_users [OF s1] assms(2) by simp
  from setPlayRecord_succeeds [OF assms(4) u1] obtain st2 where
    s2: "setPlayRecord b st1 userName key r2 = Inr st2" by blast
  have pk2: "play_pk st2" by (rule setPlayRecord_pk [OF pk1 s2])
  have one1: "length (filter (\<lambda>x. pr_username x = userName \<and> pr_key x = key)
                        (play_records st1)) = 1"
    by (rule setPlayRecord_one_row [OF assms(1) s1])
  have one2: "length (filter (\<lambda>x. pr_username x = userName \<and> pr_key x = key)
                        (play_records st2)) = 1"
    by (rule setPlayRecord_one_row [OF pk1 s2])
  have mem1: "(userName, key) \<in> set (map (\<lambda>x. (pr_username x, pr_key x)) (play_records st1))"
    using setPlayRecord_keys [OF s1] by (auto split: if_splits)
  have "map (\<lambda>x. (pr_username x, pr_key x)) (play_records st2)
          = map (\<lambda>x. (pr_username x, pr_key x)) (play_records st1)"
    using setPlayRecord_keys [OF s2] mem1 by simp
  then have len: "length (play_records st2) = length (play_records st1)"
    by (rule map_eq_imp_length_eq)
  have g1: "map_option listed_columns (getPlayRecord b st1 userName key)
              = Some (listed_columns r1)"
    by (simp add: getPlayRecord_after_set [OF s1])
  have g2: "map_option listed_columns (getPlayRecord b st2 userName key)
              = Some (listed_columns r2)"
    by (simp add: getPlayRecord_after_set [OF s2])
  from s1 pk1 one1 g1 s2 pk2 len one2 g2 show ?thesis by blast
qed

lemma ex_db_play_pk: "play_pk ex_db"
  by (simp add: play_pk_def ex_db_def empty_db_def)

lemma ex_db_alice: "''alice'' \<in> set (map u_username (users ex_db))"
  by (simp add: ex_db_def ex_alice_def new_user_row_def)

theorem setPlayRecord_upsert_roundtrip_witness:
  "play_pk ex_db \<and> ''alice'' \<in> set (map u_username (users ex_db)) \<and>
   bind_error PostgresStorage ''alice'' ''tmdb+1'' ex_record = None \<and>
   bind_error PostgresStorage ''alice'' ''tmdb+1'' ex_record2 = None \<and>
   (\<exists>st1 st2.
      setPlayRecord PostgresStorage ex_db ''alice'' ''tmdb+1'' ex_record = Inr st1 \<and>
      map_option listed_columns (getPlayRecord PostgresStorage st1 ''alice'' ''tmdb+1'')
        = Some (listed_columns ex_record) \<and>
      setPlayRecord PostgresStorage st1 ''alice'' ''tmdb+1'' ex_record2 = Inr st2 \<and>
      length (play_records st2) = length (play_records st1) \<and>
      map_option listed_columns (getPlayRecord PostgresStorage st2 ''alice'' ''tmdb+1'')
        = Some (listed_columns ex_record2))"
proof -
  have b1: "bind_error PostgresStorage ''alice'' ''tmdb+1'' ex_record = None"
    and b2: "bind_error PostgresStorage ''alice'' ''tmdb+1'' ex_record2 = None"
    using ex_record_bound [of PostgresStorage] by simp_all
  from setPlayRecord_upsert_roundtrip [OF ex_db_play_pk ex_db_alice b1 b2]
       ex_db_play_pk ex_db_alice b1 b2
  show ?thesis by blast
qed

text \<open>
  The claim as it was stated fails for a user without a row in \<^verbatim>\<open>users\<close>: the owner
  of the environment is accepted by \<^verbatim>\<open>verifyUser\<close> on an empty table, the foreign key
  refuses the play record, and nothing is read back.
\<close>

theorem setPlayRecord_no_user_row_counterexample:
  "verifyUser ex_env empty_db ''root'' ''pw'' \<and>
   setPlayRecord PostgresStorage empty_db ''root'' ''tmdb+1'' ex_record
     = Inl ForeignKeyViolation \<and>
   getPlayRecord PostgresStorage empty_db ''root'' ''tmdb+1'' = None"
proof -
  have v: "verifyUser ex_env empty_db ''root'' ''pw''"
    by (simp add: verifyUser_def ex_env_def)
  have "bind_error PostgresStorage ''root'' ''tmdb+1'' ex_record = None"
    using ex_record_bound [of PostgresStorage] by simp
  then have s: "setPlayRecord PostgresStorage empty_db ''root'' ''tmdb+1'' ex_record
                  = Inl ForeignKeyViolation"
    by (simp add: setPlayRecord_def upsert_play_record_def empty_db_def)
  have g: "getPlayRecord PostgresStorage empty_db ''root'' ''tmdb+1'' = None"
    by (simp add: getPlayRecord_def empty_db_def first_def)
  from v s g show ?thesis by simp
qed

text \<open>
  C10. The two backends do not read back the same record: at the failing input, a record
  with \<^verbatim>\<open>new_episodes = 3\<close> written for \<open>alice\<close>, \<^verbatim>\<open>D1Storage\<close> returns the record
  and \<^verbatim>\<open>PostgresStorage\<close> returns it without \<^verbatim>\<open>new_episodes\<close>.
\<close>

theorem playRecord_new_episodes_lost_in_postgres:
  "new_episodes ex_record = Some 3 \<and>
   set_then_get D1Storage ex_db ''alice'' ''tmdb+1'' ex_record = Inr (Some ex_record) \<and>
   set_then_get PostgresStorage ex_db ''alice'' ''tmdb+1'' ex_record
     = Inr (Some (ex_record\<lparr>new_episodes := None\<rparr>)) \<and>
   ex_record\<lparr>new_episodes := None\<rparr> \<noteq> ex_record"
proof -
  have n: "new_episodes ex_record = Some 3" by (simp add: ex_record_def)
  have d: "set_then_get D1Storage ex_db ''alice'' ''tmdb+1'' ex_record = Inr (Some ex_record)"
    using set_then_get_value [OF ex_db_alice, of D1Storage "''tmdb+1''" ex_record] n
      ex_record_bound [of D1Storage]
    by (simp add: num_or_null_def)
  have p: "set_then_get PostgresStorage ex_db ''alice'' ''tmdb+1'' ex_record
             = Inr (Some (ex_record\<lparr>new_episodes := None\<rparr>))"
    using set_then_get_value [OF ex_db_alice, of PostgresStorage "''tmdb+1''" ex_record]
      ex_record_bound [of PostgresStorage]
    by simp
  have ne: "ex_record\<lparr>new_episodes := None\<rparr> \<noteq> ex_record"
  proof
    assume "ex_record\<lparr>new_episodes := None\<rparr> = ex_record"
    then have "new_episodes (ex_record\<lparr>new_episodes := None\<rparr>) = new_episodes ex_record"
      by simp
    with n show False by simp
  qed
  from n d p ne show ?thesis by blast
qed

subsection \<open>Deleting a user\<close>

lemma filter_other_user:
  "v \<noteq> u \<Longrightarrow> filter (\<lambda>r. f r \<noteq> u \<and> f r = v) xs = filter (\<lambda>r. f r = v) xs"
  by (rule filter_cong) auto

lemma delete_user_rows_owns_nothing:
  assumes "fk_ok st"
  shows "owns_nothing (delete_user_rows st userName) userName"
proof (cases "userName \<in> set (map u_username (users st))")
  case True
  then show ?thesis by (auto simp: delete_user_rows_def owns_nothing_def)
next
  case False
  with assms show ?thesis
    unfolding delete_user_rows_def owns_nothing_def fk_ok_def by auto
qed

lemma delete_user_rows_gone:
  "userName \<notin> set (map u_username (users (delete_user_rows st userName)))"
  by (auto simp: delete_user_rows_def)

lemma delete_user_rows_others:
  assumes "v \<noteq> userName"
  shows "same_rows_of v st (delete_user_rows st userName)"
  using assms by (simp add: delete_user_rows_def same_rows_of_def filter_other_user)

lemma delete_user_rows_fk:
  assumes "fk_ok st"
  shows "fk_ok (delete_user_rows st userName)"
  using assms unfolding delete_user_rows_def fk_ok_def by auto

lemma owns_nothing_cache [simp]: "owns_nothing (cache_delete u st) v = owns_nothing st v"
  by (simp add: owns_nothing_def cache_delete_def)

lemma same_rows_of_cache [simp]: "same_rows_of v st (cache_delete u st') = same_rows_of v st st'"
  by (simp add: same_rows_of_def cache_delete_def)

text \<open>
  C5. In a database that respects its foreign keys, after \<^verbatim>\<open>deleteUser\<close> or
  \<^verbatim>\<open>deleteUserV2\<close> the user has no row left, in \<^verbatim>\<open>users\<close> or in any table that
  references it (play records, favorites, search history, skip configs, danmaku filter
  configs, notifications, and the two others of the schema), and the rows of every other
  user are what they were.
\<close>

theorem deleteUser_cascades:
  assumes "fk_ok st"
  shows "owns_nothing (deleteUser st userName) userName \<and>
         owns_nothing (deleteUserV2 st userName) userName \<and>
         userName \<notin> set (map u_username (users (deleteUser st userName))) \<and>
         userName \<notin> set (map u_username (users (deleteUserV2 st userName))) \<and>
         (v \<noteq> userName \<longrightarrow>
            same_rows_of v st (deleteUser st userName) \<and>
            same_rows_of v st (deleteUserV2 st userName))"
proof -
  have a: "owns_nothing (delete_user_rows st userName) userName"
    by (rule delete_user_rows_owns_nothing [OF assms])
  have b: "userName \<notin> set (map u_username (users (delete_user_rows st userName)))"
    by (rule delete_user_rows_gone)
  have c: "v \<noteq> userName \<longrightarrow> same_rows_of v st (delete_user_rows st userName)"
    by (simp add: delete_user_rows_others)
  have d: "users (deleteUserV2 st userName) = users (delete_user_rows st userName)"
    by (simp add: deleteUserV2_def cache_delete_def)
  from a b c d show ?thesis by (simp add: deleteUser_def deleteUserV2_def)
qed

lemma ex_db_owned_fk: "fk_ok ex_db_owned"
  by (simp add: fk_ok_def ex_db_owned_def ex_db_def empty_db_def ex_alice_def ex_bob_def
      ex_root_def new_user_row_def ex_play_def)

theorem deleteUser_cascades_witness:
  "fk_ok ex_db_owned \<and> ''bob'' \<noteq> ''alice'' \<and>
   ''alice'' \<in> set (map pr_username (play_records ex_db_owned)) \<and>
   owns_nothing (deleteUser ex_db_owned ''alice'') ''alice'' \<and>
   owns_nothing (deleteUserV2 ex_db_owned ''alice'') ''alice'' \<and>
   same_rows_of ''bob'' ex_db_owned (deleteUser ex_db_owned ''alice'') \<and>
   same_rows_of ''bob'' ex_db_owned (deleteUserV2 ex_db_owned ''alice'')"
proof -
  have n: "''bob'' \<noteq> ''alice''" by simp
  have m: "''alice'' \<in> set (map pr_username (play_records ex_db_owned))"
    by (simp add: ex_db_owned_def ex_play_def)
  from deleteUser_cascades [OF ex_db_owned_fk, of "''alice''" "''bob''"] n m ex_db_owned_fk
  show ?thesis by blast
qed

subsection \<open>Administrator configuration\<close>

lemma admin_ok_cases:
  assumes "admin_ok st"
  shows "admin_config st = [] \<or> (\<exists>r. admin_config st = [r] \<and> ac_id r = 1)"
proof (cases "admin_config st")
  case Nil
  then show ?thesis by simp
next
  case (Cons r rest)
  with assms have r: "ac_id r = 1" and "ac_id ` set rest \<subseteq> {1}" and "ac_id r \<notin> ac_id ` set rest"
    by (auto simp: admin_ok_def)
  then have "rest = []" by (cases rest) auto
  with Cons r show ?thesis by simp
qed

lemma setAdminConfig_table:
  assumes "admin_ok st"
  shows "admin_config (setAdminConfig stringify now st config)
           = [\<lparr>ac_id = 1, ac_config = stringify config, ac_updated_at = now\<rparr>]"
  using admin_ok_cases [OF assms] by (auto simp: setAdminConfig_def)

lemma getAdminConfig_after_set:
  "getAdminConfig parse (setAdminConfig stringify now st config) = parse (stringify config)"
proof (cases "\<exists>r \<in> set (admin_config st). ac_id r = 1")
  case True
  define upd where
    "upd = (\<lambda>r :: admin_config_row.
              if ac_id r = 1 then r\<lparr>ac_config := stringify config, ac_updated_at := now\<rparr>
              else r)"
  have keep: "(ac_id (upd r) = 1) = (ac_id r = 1)" for r by (simp add: upd_def)
  from True obtain y where y: "first (filter (\<lambda>r. ac_id r = 1) (admin_config st)) = Some y"
    using first_filter_None_iff [of "\<lambda>r. ac_id r = 1" "admin_config st"]
    by (cases "first (filter (\<lambda>r. ac_id r = 1) (admin_config st))") auto
  from first_filter_Some [OF y] have y1: "ac_id y = 1" by simp
  from True have t: "admin_config (setAdminConfig stringify now st config)
                       = map upd (admin_config st)"
    by (simp add: setAdminConfig_def upd_def)
  have "first (filter (\<lambda>r. ac_id r = 1) (map upd (admin_config st))) = Some (upd y)"
    using first_filter_map [of "\<lambda>r. ac_id r = 1" upd "admin_config st"] keep y by simp
  with t y1 show ?thesis by (simp add: getAdminConfig_def upd_def)
next
  case False
  then have "filter (\<lambda>r. ac_id r = 1) (admin_config st) = []"
    by (auto simp: filter_empty_conv)
  with False show ?thesis by (simp add: getAdminConfig_def setAdminConfig_def first_def)
qed

text \<open>
  C8. On a table that respects \<^verbatim>\<open>PRIMARY KEY\<close> and \<^verbatim>\<open>CHECK(id = 1)\<close>,
  \<^verbatim>\<open>setAdminConfig\<close> leaves exactly one row, with id 1, holding the JSON text of the
  configuration; \<^verbatim>\<open>getAdminConfig\<close> then returns what \<^verbatim>\<open>JSON.parse\<close> makes of that
  text, which is the configuration itself whenever the configuration survives the JSON
  round trip.
\<close>

theorem adminConfig_singleton_roundtrip:
  assumes "admin_ok st" and "parse (stringify config) = Some config"
  shows "admin_config (setAdminConfig stringify now st config)
           = [\<lparr>ac_id = 1, ac_config = stringify config, ac_updated_at = now\<rparr>] \<and>
         admin_ok (setAdminConfig stringify now st config) \<and>
         getAdminConfig parse (setAdminConfig stringify now st config) = Some config"
proof -
  have t: "admin_config (setAdminConfig stringify now st config)
             = [\<lparr>ac_id = 1, ac_config = stringify config, ac_updated_at = now\<rparr>]"
    by (rule setAdminConfig_table [OF assms(1)])
  then have ok: "admin_ok (setAdminConfig stringify now st config)"
    by (simp add: admin_ok_def)
  from t ok getAdminConfig_after_set [of parse stringify now st config] assms(2)
  show ?thesis by simp
qed

theorem adminConfig_singleton_roundtrip_witness:
  "admin_ok empty_db \<and> bool_parse (bool_stringify True) = Some True \<and>
   admin_config (setAdminConfig bool_stringify 5 empty_db True)
     = [\<lparr>ac_id = 1, ac_config = ''true'', ac_updated_at = 5\<rparr>] \<and>
   getAdminConfig bool_parse (setAdminConfig bool_stringify 5 empty_db True) = Some True \<and>
   getAdminConfig bool_parse
     (setAdminConfig bool_stringify 6 (setAdminConfig bool_stringify 5 empty_db True) False)
     = Some False"
proof -
  have ok: "admin_ok empty_db" by (simp add: admin_ok_def empty_db_def)
  have rt: "bool_parse (bool_stringify True) = Some True"
    by (simp add: bool_parse_def bool_stringify_def)
  have rf: "bool_parse (bool_stringify False) = Some False"
    by (simp add: bool_parse_def bool_stringify_def)
  note t1 = adminConfig_singleton_roundtrip
              [where parse = bool_parse and stringify = bool_stringify and config = True
                 and st = empty_db and now = 5, OF ok rt]
  from t1 have ok1: "admin_ok (setAdminConfig bool_stringify 5 empty_db True)" by blast
  note t2 = adminConfig_singleton_roundtrip
              [where parse = bool_parse and stringify = bool_stringify and config = False
                 and st = "setAdminConfig bool_stringify 5 empty_db True" and now = 6,
               OF ok1 rf]
  from t1 t2 ok rt show ?thesis by (simp add: bool_stringify_def)
qed

subsection \<open>The latest rows of a user\<close>

lemma order_by_desc_mset [simp]: "mset (order_by_desc col xs) = mset xs"
  by (simp add: order_by_desc_def)

lemma order_by_desc_set [simp]: "set (order_by_desc col xs) = set xs"
  by (simp add: order_by_desc_def)

lemma order_by_desc_length [simp]: "length (order_by_desc col xs) = length xs"
  by (simp add: order_by_desc_def)

lemma order_by_desc_distinct [simp]: "distinct (order_by_desc col xs) = distinct xs"
  by (simp add: order_by_desc_def)

lemma order_by_desc_sorted: "sorted (map (\<lambda>r. - col r) (order_by_desc col xs))"
  by (simp add: order_by_desc_def)

lemma top_desc_split:
  fixes col :: "'a \<Rightarrow> int"
  assumes "x \<in> set (take n (order_by_desc col xs))"
    and "y \<in> set (drop n (order_by_desc col xs))"
  shows "col y \<le> col x"
proof -
  let ?s = "order_by_desc col xs"
  have "map (\<lambda>r. - col r) (take n ?s) @ map (\<lambda>r. - col r) (drop n ?s)
          = map (\<lambda>r. - col r) ?s"
    by (simp flip: map_append)
  with order_by_desc_sorted [of col xs]
  have "sorted (map (\<lambda>r. - col r) (take n ?s) @ map (\<lambda>r. - col r) (drop n ?s))"
    by simp
  then have "\<forall>a \<in> set (map (\<lambda>r. - col r) (take n ?s)).
             \<forall>b \<in> set (map (\<lambda>r. - col r) (drop n ?s)). a \<le> b"
    unfolding sorted_append by blast
  with assms have "- col x \<le> - col y" by simp
  then show ?thesis by simp
qed

lemma desc_sorted_wrt:
  fixes col :: "'a \<Rightarrow> int"
  shows "sorted_wrt (\<lambda>a b. col b \<le> col a) (order_by_desc col xs)"
proof -
  have "sorted_wrt (\<lambda>a b. - col a \<le> - col b) (order_by_desc col xs)"
    using order_by_desc_sorted [of col xs] by (simp add: sorted_map)
  then show ?thesis by simp
qed

lemma filter_mem_distinct:
  assumes "distinct xs" and "distinct ts" and "set ts \<subseteq> set xs"
  shows "mset (filter (\<lambda>r. r \<in> set ts) xs) = mset ts"
proof -
  have d: "distinct (filter (\<lambda>r. r \<in> set ts) xs)" using assms(1) by simp
  have e: "set (filter (\<lambda>r. r \<in> set ts) xs) = set ts" using assms(3) by auto
  from set_eq_iff_mset_eq_distinct [OF d assms(2)] e show ?thesis by blast
qed

lemma keep_top_mset:
  assumes "distinct (map k xs)"
  shows "mset (filter (\<lambda>r. k r \<in> set (map k (take n (order_by_desc col xs)))) xs)
           = mset (take n (order_by_desc col xs))"
proof -
  let ?t = "take n (order_by_desc col xs)"
  have dx: "distinct xs" using assms by (rule distinct_map [THEN iffD1, THEN conjunct1])
  have inj: "inj_on k (set xs)" using assms by (simp add: distinct_map)
  have sub: "set ?t \<subseteq> set xs" using set_take_subset [of n "order_by_desc col xs"] by simp
  have dt: "distinct ?t" using dx by simp
  have "filter (\<lambda>r. k r \<in> set (map k ?t)) xs = filter (\<lambda>r. r \<in> set ?t) xs"
  proof (rule filter_cong [OF refl])
    fix r assume r: "r \<in> set xs"
    show "(k r \<in> set (map k ?t)) = (r \<in> set ?t)"
    proof
      assume "k r \<in> set (map k ?t)"
      then obtain q where q: "q \<in> set ?t" "k q = k r" by auto
      with sub have "q \<in> set xs" by blast
      with inj r q(2) have "q = r" by (auto dest: inj_onD)
      with q(1) show "r \<in> set ?t" by simp
    next
      assume "r \<in> set ?t"
      then show "k r \<in> set (map k ?t)" by simp
    qed
  qed
  with filter_mem_distinct [OF dx dt sub] show ?thesis by simp
qed

lemma distinct_pair_filter:
  assumes "distinct (map (\<lambda>r. (f r, g r)) xs)"
  shows "distinct (map g (filter (\<lambda>r. f r = u) xs))"
  using assms
proof (induction xs)
  case Nil
  then show ?case by simp
next
  case (Cons a xs)
  then have ih: "distinct (map g (filter (\<lambda>r. f r = u) xs))" by simp
  show ?case
  proof (cases "f a = u")
    case True
    have "g a \<notin> g ` set (filter (\<lambda>r. f r = u) xs)"
    proof
      assume "g a \<in> g ` set (filter (\<lambda>r. f r = u) xs)"
      then obtain q where q: "q \<in> set xs" "f q = u" "g q = g a" by auto
      from q(1) have "(f q, g q) \<in> (\<lambda>r. (f r, g r)) ` set xs" by (rule imageI)
      with True q(2,3) have "(f a, g a) \<in> (\<lambda>r. (f r, g r)) ` set xs" by simp
      with Cons.prems show False by simp
    qed
    with True ih show ?thesis by simp
  next
    case False
    with ih show ?thesis by simp
  qed
qed

lemma kept_rows_set:
  assumes "distinct (map k xs)"
  shows "set (filter (\<lambda>r. k r \<in> set (map k (take n (order_by_desc col xs)))) xs)
           = set (take n (order_by_desc col xs))"
  using keep_top_mset [OF assms, of n col] by (metis set_mset_mset)

lemma dropped_rows_set:
  assumes "distinct xs"
  shows "set xs - set (take n (order_by_desc col xs)) \<subseteq> set (drop n (order_by_desc col xs))"
proof -
  have "set xs = set (take n (order_by_desc col xs) @ drop n (order_by_desc col xs))"
    by simp
  then show ?thesis by (auto simp del: append_take_drop_id)
qed

subsection \<open>Pruning old play records\<close>

lemma parseInt_100: "parseInt ''100'' = Some 100"
  by (simp add: parseInt_def is_white_def is_digit_def digits_value_def)

lemma maxRecords_default: "MAX_PLAY_RECORDS_PER_USER e = None \<Longrightarrow> maxRecords_of e = Some 100"
  by (simp add: maxRecords_of_def parseInt_100)

lemma sql_limit_nonneg:
  "0 \<le> m \<Longrightarrow> sql_limit_offset b m 0 rows = Inr (take (nat m) rows)"
  by (cases b) (simp_all add: sql_limit_offset_def)

lemma cleanup_small:
  assumes "maxRecords_of e = Some m"
    and "int (length (filter (\<lambda>r. pr_username r = userName) (play_records st))) \<le> m + 10"
  shows "cleanupOldPlayRecords b e st userName = Inr st"
  using assms by (simp add: cleanupOldPlayRecords_def)

lemma cleanup_large:
  assumes "maxRecords_of e = Some m" and "0 \<le> m"
    and "\<not> int (length (filter (\<lambda>r. pr_username r = userName) (play_records st))) \<le> m + 10"
  shows "cleanupOldPlayRecords b e st userName =
           Inr (st\<lparr>play_records :=
                     filter (\<lambda>r. \<not> (pr_username r = userName \<and>
                                     pr_key r \<notin> set (map pr_key
                                       (take (nat m) (order_by_desc pr_save_time
                                          (filter (\<lambda>r. pr_username r = userName)
                                             (play_records st)))))))
                            (play_records st)\<rparr>)"
  using assms by (simp add: cleanupOldPlayRecords_def sql_limit_nonneg Let_def)

lemma filter_user_kept:
  "filter (\<lambda>r. f r = u) (filter (\<lambda>r. \<not> (f r = u \<and> k r \<notin> K)) xs)
     = filter (\<lambda>r. k r \<in> K) (filter (\<lambda>r. f r = u) xs)"
  by (induction xs) auto

lemma filter_other_kept:
  "v \<noteq> u \<Longrightarrow>
   filter (\<lambda>r. f r = v) (filter (\<lambda>r. \<not> (f r = u \<and> k r \<notin> K)) xs) = filter (\<lambda>r. f r = v) xs"
  by (induction xs) auto

text \<open>
  C2. With the maximum read from the environment as a non-negative integer \<open>m\<close> (100
  when the variable is not set) and a table that respects its primary key,
  \<^verbatim>\<open>cleanupOldPlayRecords\<close> succeeds; it leaves the database as it is when the user has
  at most \<open>m + 10\<close> records; otherwise exactly \<open>m\<close> records of the user remain, all of
  them among the user's records, no deleted record is newer than a kept one, and the
  records of the other users are untouched.
\<close>

theorem cleanupOldPlayRecords_keeps_latest:
  assumes "play_pk st" and "maxRecords_of e = Some m" and "0 \<le> m"
  shows "\<exists>st'. cleanupOldPlayRecords b e st userName = Inr st' \<and>
           (int (length (filter (\<lambda>r. pr_username r = userName) (play_records st))) \<le> m + 10
              \<longrightarrow> st' = st) \<and>
           (int (length (filter (\<lambda>r. pr_username r = userName) (play_records st))) > m + 10
              \<longrightarrow>
              length (filter (\<lambda>r. pr_username r = userName) (play_records st')) = nat m \<and>
              set (filter (\<lambda>r. pr_username r = userName) (play_records st'))
                \<subseteq> set (filter (\<lambda>r. pr_username r = userName) (play_records st)) \<and>
              (\<forall>kept \<in> set (filter (\<lambda>r. pr_username r = userName) (play_records st')).
               \<forall>gone \<in> set (filter (\<lambda>r. pr_username r = userName) (play_records st))
                         - set (filter (\<lambda>r. pr_username r = userName) (play_records st')).
                  pr_save_time gone \<le> pr_save_time kept)) \<and>
           (\<forall>v. v \<noteq> userName \<longrightarrow>
                filter (\<lambda>r. pr_username r = v) (play_records st')
                  = filter (\<lambda>r. pr_username r = v) (play_records st)) \<and>
           (MAX_PLAY_RECORDS_PER_USER e = None \<longrightarrow> m = 100)"
proof -
  let ?U = "filter (\<lambda>r. pr_username r = userName) (play_records st)"
  let ?T = "take (nat m) (order_by_desc pr_save_time ?U)"
  have dflt: "MAX_PLAY_RECORDS_PER_USER e = None \<longrightarrow> m = 100"
    using maxRecords_default [of e] assms(2) by auto
  show ?thesis
  proof (cases "int (length ?U) \<le> m + 10")
    case True
    then have no: "\<not> int (length ?U) > m + 10" by simp
    show ?thesis
    proof (intro exI [of _ st] conjI)
      show "cleanupOldPlayRecords b e st userName = Inr st"
        by (rule cleanup_small [OF assms(2) True])
      show "int (length ?U) \<le> m + 10 \<longrightarrow> st = st" by simp
      show "int (length ?U) > m + 10 \<longrightarrow>
              length ?U = nat m \<and> set ?U \<subseteq> set ?U \<and>
              (\<forall>kept \<in> set ?U. \<forall>gone \<in> set ?U - set ?U.
                 pr_save_time gone \<le> pr_save_time kept)"
        using no by blast
      show "\<forall>v. v \<noteq> userName \<longrightarrow>
              filter (\<lambda>r. pr_username r = v) (play_records st)
                = filter (\<lambda>r. pr_username r = v) (play_records st)" by simp
      show "MAX_PLAY_RECORDS_PER_USER e = None \<longrightarrow> m = 100" by (rule dflt)
    qed
  next
    case False
    define st' where
      "st' = st\<lparr>play_records :=
                  filter (\<lambda>r. \<not> (pr_username r = userName \<and> pr_key r \<notin> set (map pr_key ?T)))
                         (play_records st)\<rparr>"
    have run: "cleanupOldPlayRecords b e st userName = Inr st'"
      unfolding st'_def by (rule cleanup_large [OF assms(2,3) False])
    have dk: "distinct (map pr_key ?U)"
      using assms(1) unfolding play_pk_def by (rule distinct_pair_filter)
    have dU: "distinct ?U" using dk by (rule distinct_map [THEN iffD1, THEN conjunct1])
    have pr': "play_records st' =
                 filter (\<lambda>r. \<not> (pr_username r = userName \<and> pr_key r \<notin> set (map pr_key ?T)))
                        (play_records st)"
      by (simp add: st'_def)
    have U': "filter (\<lambda>r. pr_username r = userName) (play_records st')
                = filter (\<lambda>r. pr_key r \<in> set (map pr_key ?T)) ?U"
      unfolding pr' by (rule filter_user_kept)
    have ms: "mset (filter (\<lambda>r. pr_username r = userName) (play_records st')) = mset ?T"
      unfolding U' by (rule keep_top_mset [OF dk])
    have "length (filter (\<lambda>r. pr_username r = userName) (play_records st')) = length ?T"
      using ms by (metis size_mset)
    moreover have "length ?T = nat m" using False by simp
    ultimately have len: "length (filter (\<lambda>r. pr_username r = userName) (play_records st')) = nat m"
      by simp
    have seteq: "set (filter (\<lambda>r. pr_username r = userName) (play_records st')) = set ?T"
      unfolding U' by (rule kept_rows_set [OF dk])
    have sub: "set (filter (\<lambda>r. pr_username r = userName) (play_records st')) \<subseteq> set ?U"
      unfolding seteq using set_take_subset [of "nat m" "order_by_desc pr_save_time ?U"]
      by simp
    have ord: "\<forall>kept \<in> set (filter (\<lambda>r. pr_username r = userName) (play_records st')).
               \<forall>gone \<in> set ?U - set (filter (\<lambda>r. pr_username r = userName) (play_records st')).
                  pr_save_time gone \<le> pr_save_time kept"
    proof (intro ballI)
      fix kept gone
      assume k: "kept \<in> set (filter (\<lambda>r. pr_username r = userName) (play_records st'))"
        and g: "gone \<in> set ?U - set (filter (\<lambda>r. pr_username r = userName) (play_records st'))"
      from k seteq have k': "kept \<in> set ?T" by blast
      from g seteq have "gone \<in> set ?U - set ?T" by blast
      with dropped_rows_set [OF dU, of "nat m" pr_save_time]
      have g': "gone \<in> set (drop (nat m) (order_by_desc pr_save_time ?U))" by blast
      from top_desc_split [OF k' g'] show "pr_save_time gone \<le> pr_save_time kept" .
    qed
    have others: "\<forall>v. v \<noteq> userName \<longrightarrow>
                    filter (\<lambda>r. pr_username r = v) (play_records st')
                      = filter (\<lambda>r. pr_username r = v) (play_records st)"
      unfolding pr' by (intro allI impI) (rule filter_other_kept)
    show ?thesis
    proof (intro exI [of _ st'] conjI)
      show "cleanupOldPlayRecords b e st userName = Inr st'" by (rule run)
      show "int (length ?U) \<le> m + 10 \<longrightarrow> st' = st" using False by blast
      show "int (length ?U) > m + 10 \<longrightarrow>
              length (filter (\<lambda>r. pr_username r = userName) (play_records st')) = nat m \<and>
              set (filter (\<lambda>r. pr_username r = userName) (play_records st')) \<subseteq> set ?U \<and>
              (\<forall>kept \<in> set (filter (\<lambda>r. pr_username r = userName) (play_records st')).
               \<forall>gone \<in> set ?U - set (filter (\<lambda>r. pr_username r = userName) (play_records st')).
                  pr_save_time gone \<le> pr_save_time kept)"
        using len sub ord by blast
      show "\<forall>v. v \<noteq> userName \<longrightarrow>
              filter (\<lambda>r. pr_username r = v) (play_records st')
                = filter (\<lambda>r. pr_username r = v) (play_records st)" by (rule others)
      show "MAX_PLAY_RECORDS_PER_USER e = None \<longrightarrow> m = 100" by (rule dflt)
    qed
  qed
qed

lemma ex_db_many_pk: "play_pk ex_db_many"
  by (simp add: play_pk_def ex_db_many_def ex_db_def empty_db_def ex_play_def)

lemma ex_env_max1_value: "maxRecords_of ex_env_max1 = Some 1"
  by (simp add: maxRecords_of_def ex_env_max1_def ex_env_def parseInt_def is_white_def
      is_digit_def digits_value_def)

lemma ex_db_many_count:
  "length (filter (\<lambda>r. pr_username r = ''alice'') (play_records ex_db_many)) = 12"
  by (simp add: ex_db_many_def ex_db_def empty_db_def ex_play_def)

theorem cleanupOldPlayRecords_keeps_latest_witness:
  "play_pk ex_db_many \<and> maxRecords_of ex_env_max1 = Some 1 \<and> (0::int) \<le> 1 \<and>
   int (length (filter (\<lambda>r. pr_username r = ''alice'') (play_records ex_db_many))) > 1 + 10 \<and>
   (\<exists>st'. cleanupOldPlayRecords PostgresStorage ex_env_max1 ex_db_many ''alice'' = Inr st' \<and>
      length (filter (\<lambda>r. pr_username r = ''alice'') (play_records st')) = 1 \<and>
      filter (\<lambda>r. pr_username r = ''bob'') (play_records st')
        = filter (\<lambda>r. pr_username r = ''bob'') (play_records ex_db_many)) \<and>
   play_pk ex_db_owned \<and> maxRecords_of ex_env = Some 100 \<and>
   MAX_PLAY_RECORDS_PER_USER ex_env = None \<and>
   cleanupOldPlayRecords D1Storage ex_env ex_db_owned ''alice'' = Inr ex_db_owned"
proof -
  have z: "(0::int) \<le> 1" by simp
  have c: "int (length (filter (\<lambda>r. pr_username r = ''alice'') (play_records ex_db_many)))
             > 1 + 10"
    by (simp add: ex_db_many_count)
  have nb: "''bob'' \<noteq> ''alice''" by simp
  from cleanupOldPlayRecords_keeps_latest
         [OF ex_db_many_pk ex_env_max1_value z, of PostgresStorage "''alice''"] c nb
  have first_part:
    "\<exists>st'. cleanupOldPlayRecords PostgresStorage ex_env_max1 ex_db_many ''alice'' = Inr st' \<and>
       length (filter (\<lambda>r. pr_username r = ''alice'') (play_records st')) = 1 \<and>
       filter (\<lambda>r. pr_username r = ''bob'') (play_records st')
         = filter (\<lambda>r. pr_username r = ''bob'') (play_records ex_db_many)"
    by auto
  have pk2: "play_pk ex_db_owned"
    by (simp add: play_pk_def ex_db_owned_def ex_play_def)
  have e2: "MAX_PLAY_RECORDS_PER_USER ex_env = None" by (simp add: ex_env_def)
  have m2: "maxRecords_of ex_env = Some 100" by (rule maxRecords_default [OF e2])
  have z2: "(0::int) \<le> 100" by simp
  have c2: "int (length (filter (\<lambda>r. pr_username r = ''alice'') (play_records ex_db_owned)))
              \<le> 100 + 10"
    by (simp add: ex_db_owned_def ex_play_def)
  from cleanupOldPlayRecords_keeps_latest [OF pk2 m2 z2, of D1Storage "''alice''"] c2
  have second_part: "cleanupOldPlayRecords D1Storage ex_env ex_db_owned ''alice'' = Inr ex_db_owned"
    by auto
  from ex_db_many_pk ex_env_max1_value z c first_part pk2 m2 e2 second_part
  show ?thesis by blast
qed

subsection \<open>Search history\<close>

lemma search_count_all:
  "search_ok st \<Longrightarrow> length (filter (\<lambda>r. sh_username r = u) (search_history st)) \<le> 20"
proof (cases "u \<in> set (map sh_username (search_history st))")
  case True
  assume "search_ok st"
  with True show ?thesis by (auto simp: search_ok_def list_all_iff)
next
  case False
  then have "filter (\<lambda>r. sh_username r = u) (search_history st) = []"
    by (auto simp: filter_empty_conv)
  then show ?thesis by simp
qed

lemma search_okI:
  assumes "search_keys_ok st"
    and "\<And>u. length (filter (\<lambda>r. sh_username r = u) (search_history st)) \<le> 20"
  shows "search_ok st"
  using assms by (simp add: search_ok_def list_all_iff)

lemma upsert_search_cases:
  assumes "upsert_search now st userName keyword = Inr st1"
  shows "(search_history st1 =
            map (\<lambda>r. if sh_username r = userName \<and> sh_keyword r = keyword
                      then r\<lparr>sh_timestamp := now\<rparr> else r) (search_history st) \<and>
          (userName, keyword) \<in> set (map (\<lambda>r. (sh_username r, sh_keyword r)) (search_history st)))
         \<or>
         (search_history st1 = search_history st @
            [\<lparr>sh_id = search_history_id_seq st + 1, sh_username = userName,
              sh_keyword = keyword, sh_timestamp = now\<rparr>] \<and>
          (userName, keyword) \<notin> set (map (\<lambda>r. (sh_username r, sh_keyword r)) (search_history st)))"
proof (cases "\<exists>r \<in> set (search_history st). sh_username r = userName \<and> sh_keyword r = keyword")
  case True
  then have "(userName, keyword) \<in> set (map (\<lambda>r. (sh_username r, sh_keyword r)) (search_history st))"
    by force
  with True assms show ?thesis by (auto simp: upsert_search_def)
next
  case False
  then have "(userName, keyword) \<notin> set (map (\<lambda>r. (sh_username r, sh_keyword r)) (search_history st))"
    by force
  with False assms show ?thesis by (auto simp: upsert_search_def split: if_splits)
qed

lemma upsert_search_seq:
  "upsert_search now st userName keyword = Inr st1 \<Longrightarrow>
   search_history_id_seq st1 = search_history_id_seq st + 1"
  by (auto simp: upsert_search_def split: if_splits)

lemma upsert_search_keys:
  assumes "search_keys_ok st" and "upsert_search now st userName keyword = Inr st1"
  shows "search_keys_ok st1"
proof -
  from upsert_search_cases [OF assms(2)] show ?thesis
  proof
    assume a: "search_history st1 =
            map (\<lambda>r. if sh_username r = userName \<and> sh_keyword r = keyword
                      then r\<lparr>sh_timestamp := now\<rparr> else r) (search_history st) \<and>
          (userName, keyword) \<in> set (map (\<lambda>r. (sh_username r, sh_keyword r)) (search_history st))"
    then have ids: "map sh_id (search_history st1) = map sh_id (search_history st)"
      and ks: "map (\<lambda>r. (sh_username r, sh_keyword r)) (search_history st1)
                 = map (\<lambda>r. (sh_username r, sh_keyword r)) (search_history st)"
      by (auto simp: o_def)
    have "list_all (\<lambda>r. sh_id r \<le> search_history_id_seq st1) (search_history st1)"
      using assms(1) a upsert_search_seq [OF assms(2)]
      by (auto simp: search_keys_ok_def list_all_iff)
    with assms(1) ids ks show ?thesis by (simp add: search_keys_ok_def)
  next
    assume a: "search_history st1 = search_history st @
            [\<lparr>sh_id = search_history_id_seq st + 1, sh_username = userName,
              sh_keyword = keyword, sh_timestamp = now\<rparr>] \<and>
          (userName, keyword) \<notin> set (map (\<lambda>r. (sh_username r, sh_keyword r)) (search_history st))"
    have fresh: "search_history_id_seq st + 1 \<notin> set (map sh_id (search_history st))"
      using assms(1) by (auto simp: search_keys_ok_def list_all_iff)
    from a fresh assms(1) upsert_search_seq [OF assms(2)] show ?thesis
      by (auto simp: search_keys_ok_def list_all_iff)
  qed
qed

lemma filter_map_keep:
  assumes "\<And>x. P (f x) = P x"
  shows "filter P (map f xs) = map f (filter P xs)"
  using assms by (induction xs) simp_all

lemma upsert_search_user_rows:
  assumes "upsert_search now st userName keyword = Inr st1"
  shows "(filter (\<lambda>r. sh_username r = v) (search_history st1) =
            map (\<lambda>r. if sh_username r = userName \<and> sh_keyword r = keyword
                      then r\<lparr>sh_timestamp := now\<rparr> else r)
                (filter (\<lambda>r. sh_username r = v) (search_history st)))
         \<or>
         (filter (\<lambda>r. sh_username r = v) (search_history st1) =
            filter (\<lambda>r. sh_username r = v) (search_history st) @
            (if v = userName
             then [\<lparr>sh_id = search_history_id_seq st + 1, sh_username = userName,
                    sh_keyword = keyword, sh_timestamp = now\<rparr>]
             else []))"
proof -
  define upd where "upd = (\<lambda>r :: search_row.
      if sh_username r = userName \<and> sh_keyword r = keyword then r\<lparr>sh_timestamp := now\<rparr> else r)"
  have keep: "(sh_username (upd r) = v) = (sh_username r = v)" for r
    by (simp add: upd_def)
  from upsert_search_cases [OF assms]
  have "search_history st1 = map upd (search_history st) \<or>
        search_history st1 = search_history st @
            [\<lparr>sh_id = search_history_id_seq st + 1, sh_username = userName,
              sh_keyword = keyword, sh_timestamp = now\<rparr>]"
    unfolding upd_def by blast
  then show ?thesis
  proof
    assume "search_history st1 = map upd (search_history st)"
    then have "filter (\<lambda>r. sh_username r = v) (search_history st1)
                 = map upd (filter (\<lambda>r. sh_username r = v) (search_history st))"
      using filter_map_keep [of "\<lambda>r. sh_username r = v" upd "search_history st"] keep
      by simp
    then show ?thesis unfolding upd_def by blast
  next
    assume "search_history st1 = search_history st @
            [\<lparr>sh_id = search_history_id_seq st + 1, sh_username = userName,
              sh_keyword = keyword, sh_timestamp = now\<rparr>]"
    then have "filter (\<lambda>r. sh_username r = v) (search_history st1) =
            filter (\<lambda>r. sh_username r = v) (search_history st) @
            (if v = userName
             then [\<lparr>sh_id = search_history_id_seq st + 1, sh_username = userName,
                    sh_keyword = keyword, sh_timestamp = now\<rparr>]
             else [])"
      by auto
    then show ?thesis by blast
  qed
qed

lemma upsert_search_count:
  assumes "upsert_search now st userName keyword = Inr st1"
  shows "length (filter (\<lambda>r. sh_username r = v) (search_history st1))
           \<le> length (filter (\<lambda>r. sh_username r = v) (search_history st))
               + (if v = userName then 1 else 0)"
  using upsert_search_user_rows [OF assms, of v]
  by (elim disjE) simp_all

lemma distinct_map_filter_key:
  "distinct (map k xs) \<Longrightarrow> distinct (map k (filter P xs))"
  by (induction xs) auto

lemma trim_search_rows:
  "search_history (trim_search st userName) =
     (if length (filter (\<lambda>r. sh_username r = userName) (search_history st)) > 20
      then filter (\<lambda>r. \<not> (sh_username r = userName \<and>
                           sh_id r \<notin> set (map sh_id
                             (take 20 (order_by_desc sh_timestamp
                                (filter (\<lambda>r. sh_username r = userName) (search_history st)))))))
                  (search_history st)
      else search_history st)"
  by (simp add: trim_search_def Let_def)

lemma trim_search_seq [simp]:
  "search_history_id_seq (trim_search st userName) = search_history_id_seq st"
  by (simp add: trim_search_def Let_def)

lemma trim_search_subset:
  "set (search_history (trim_search st userName)) \<subseteq> set (search_history st)"
  unfolding trim_search_rows by auto

lemma trim_search_keys:
  assumes "search_keys_ok st"
  shows "search_keys_ok (trim_search st userName)"
proof (cases "length (filter (\<lambda>r. sh_username r = userName) (search_history st)) > 20")
  case True
  then obtain P where P: "search_history (trim_search st userName) = filter P (search_history st)"
    unfolding trim_search_rows by auto
  from assms show ?thesis
    unfolding search_keys_ok_def P trim_search_seq
    by (auto simp: distinct_map_filter_key list_all_iff)
next
  case False
  then have "search_history (trim_search st userName) = search_history st"
    unfolding trim_search_rows by simp
  with assms show ?thesis by (simp add: search_keys_ok_def)
qed

lemma trim_search_others:
  assumes "v \<noteq> userName"
  shows "filter (\<lambda>r. sh_username r = v) (search_history (trim_search st userName))
           = filter (\<lambda>r. sh_username r = v) (search_history st)"
proof (cases "length (filter (\<lambda>r. sh_username r = userName) (search_history st)) > 20")
  case True
  then show ?thesis
    unfolding trim_search_rows using filter_other_kept [OF assms] by simp
next
  case False
  then show ?thesis unfolding trim_search_rows by simp
qed

lemma trim_search_count:
  assumes "search_keys_ok st"
  shows "length (filter (\<lambda>r. sh_username r = userName) (search_history (trim_search st userName)))
           \<le> 20"
proof (cases "length (filter (\<lambda>r. sh_username r = userName) (search_history st)) > 20")
  case True
  let ?U = "filter (\<lambda>r. sh_username r = userName) (search_history st)"
  let ?T = "take 20 (order_by_desc sh_timestamp ?U)"
  have dk: "distinct (map sh_id ?U)"
    using assms by (simp add: search_keys_ok_def distinct_map_filter_key)
  have rows: "search_history (trim_search st userName) =
                filter (\<lambda>r. \<not> (sh_username r = userName \<and> sh_id r \<notin> set (map sh_id ?T)))
                       (search_history st)"
    unfolding trim_search_rows using True by simp
  have "filter (\<lambda>r. sh_username r = userName) (search_history (trim_search st userName))
          = filter (\<lambda>r. sh_id r \<in> set (map sh_id ?T)) ?U"
    unfolding rows by (rule filter_user_kept)
  then have "mset (filter (\<lambda>r. sh_username r = userName)
                     (search_history (trim_search st userName))) = mset ?T"
    using keep_top_mset [OF dk, of 20 sh_timestamp] by simp
  then have "length (filter (\<lambda>r. sh_username r = userName)
                       (search_history (trim_search st userName))) = length ?T"
    by (metis size_mset)
  then show ?thesis by simp
next
  case False
  then show ?thesis unfolding trim_search_rows by simp
qed

lemma addSearchHistory_ok:
  assumes "search_ok st" and "addSearchHistory now st userName keyword = Inr st'"
  shows "search_ok st'"
proof -
  from assms(2) obtain st1 where
    up: "upsert_search now st userName keyword = Inr st1" and
    tr: "st' = trim_search st1 userName"
    by (auto simp: addSearchHistory_def split: sum.splits)
  from assms(1) have k: "search_keys_ok st" by (simp add: search_ok_def)
  have k1: "search_keys_ok st1" by (rule upsert_search_keys [OF k up])
  have k': "search_keys_ok st'" unfolding tr by (rule trim_search_keys [OF k1])
  show ?thesis
  proof (rule search_okI [OF k'])
    fix v
    show "length (filter (\<lambda>r. sh_username r = v) (search_history st')) \<le> 20"
    proof (cases "v = userName")
      case True
      then show ?thesis unfolding tr using trim_search_count [OF k1, of userName] by simp
    next
      case False
      have "length (filter (\<lambda>r. sh_username r = v) (search_history st'))
              = length (filter (\<lambda>r. sh_username r = v) (search_history st1))"
        unfolding tr using trim_search_others [OF False, of st1] by simp
      also have "\<dots> \<le> length (filter (\<lambda>r. sh_username r = v) (search_history st))"
        using upsert_search_count [OF up, of v] False by simp
      also have "\<dots> \<le> 20" by (rule search_count_all [OF assms(1)])
      finally show ?thesis .
    qed
  qed
qed

lemma add_all_ok: "search_ok st \<Longrightarrow> search_ok (add_all st calls)"
proof (induction calls arbitrary: st)
  case Nil
  then show ?case by simp
next
  case (Cons c calls)
  obtain now userName keyword where c: "c = (now, userName, keyword)" by (cases c) auto
  show ?case
  proof (cases "addSearchHistory now st userName keyword")
    case (Inl err)
    with Cons c show ?thesis by simp
  next
    case (Inr st')
    with Cons.prems have "search_ok st'" by (auto intro: addSearchHistory_ok)
    with Cons.IH Inr c show ?thesis by simp
  qed
qed

lemma getSearchHistory_all:
  assumes "search_ok st"
  shows "getSearchHistory st userName =
           map sh_keyword (order_by_desc sh_timestamp
                             (filter (\<lambda>r. sh_username r = userName) (search_history st)))"
  using search_count_all [OF assms, of userName] by (simp add: getSearchHistory_def)

lemma user_keywords_distinct:
  assumes "search_keys_ok st"
  shows "distinct (map sh_keyword (filter (\<lambda>r. sh_username r = userName) (search_history st)))"
  using assms unfolding search_keys_ok_def by (auto intro: distinct_pair_filter)

lemma add_existing_keyword:
  assumes "search_ok st"
    and "(userName, keyword) \<in> set (map (\<lambda>r. (sh_username r, sh_keyword r)) (search_history st))"
  shows "\<exists>st'. addSearchHistory now st userName keyword = Inr st' \<and>
           search_history st' =
             map (\<lambda>r. if sh_username r = userName \<and> sh_keyword r = keyword
                       then r\<lparr>sh_timestamp := now\<rparr> else r) (search_history st)"
proof -
  from assms(2) have ex: "\<exists>r \<in> set (search_history st). sh_username r = userName \<and> sh_keyword r = keyword"
    by auto
  define st1 where "st1 = st\<lparr>search_history :=
                  map (\<lambda>r. if sh_username r = userName \<and> sh_keyword r = keyword
                            then r\<lparr>sh_timestamp := now\<rparr> else r)
                      (search_history st),
                search_history_id_seq := search_history_id_seq st + 1\<rparr>"
  from ex have up: "upsert_search now st userName keyword = Inr st1"
    by (simp add: upsert_search_def st1_def)
  have keep: "(sh_username (if sh_username r = userName \<and> sh_keyword r = keyword
                            then r\<lparr>sh_timestamp := now\<rparr> else r) = userName)
                = (sh_username r = userName)" for r :: search_row
    by simp
  have "filter (\<lambda>r. sh_username r = userName) (search_history st1)
          = map (\<lambda>r. if sh_username r = userName \<and> sh_keyword r = keyword
                      then r\<lparr>sh_timestamp := now\<rparr> else r)
                (filter (\<lambda>r. sh_username r = userName) (search_history st))"
    unfolding st1_def using keep by (simp add: filter_map_keep)
  then have "length (filter (\<lambda>r. sh_username r = userName) (search_history st1))
          \<le> length (filter (\<lambda>r. sh_username r = userName) (search_history st))"
    by simp
  also have "\<dots> \<le> 20" by (rule search_count_all [OF assms(1)])
  finally have "trim_search st1 userName = st1" by (simp add: trim_search_def)
  with up have "addSearchHistory now st userName keyword = Inr st1"
    by (simp add: addSearchHistory_def)
  moreover have "search_history st1 =
             map (\<lambda>r. if sh_username r = userName \<and> sh_keyword r = keyword
                       then r\<lparr>sh_timestamp := now\<rparr> else r) (search_history st)"
    by (simp add: st1_def)
  ultimately show ?thesis by blast
qed

text \<open>
  C6. From a table that respects its constraints and holds at most twenty entries for
  each user, any sequence of \<^verbatim>\<open>addSearchHistory\<close> calls keeps that so: every user has
  at most twenty entries, with distinct keywords. \<^verbatim>\<open>getSearchHistory\<close> returns the
  keywords of all the user's entries, latest timestamp first. Adding a keyword the user
  already has succeeds and changes the timestamp of that entry only.
\<close>

theorem searchHistory_bounded_recent_first:
  assumes "search_ok st"
  shows "search_ok (add_all st calls) \<and>
         length (filter (\<lambda>r. sh_username r = userName) (search_history (add_all st calls))) \<le> 20 \<and>
         distinct (map sh_keyword
                     (filter (\<lambda>r. sh_username r = userName) (search_history (add_all st calls)))) \<and>
         (\<exists>rows. getSearchHistory (add_all st calls) userName = map sh_keyword rows \<and>
                 mset rows = mset (filter (\<lambda>r. sh_username r = userName)
                                     (search_history (add_all st calls))) \<and>
                 sorted_wrt (\<lambda>a b. sh_timestamp b \<le> sh_timestamp a) rows) \<and>
         ((userName, keyword) \<in> set (map (\<lambda>r. (sh_username r, sh_keyword r))
                                       (search_history (add_all st calls))) \<longrightarrow>
            (\<exists>st'. addSearchHistory now (add_all st calls) userName keyword = Inr st' \<and>
               search_history st' =
                 map (\<lambda>r. if sh_username r = userName \<and> sh_keyword r = keyword
                           then r\<lparr>sh_timestamp := now\<rparr> else r)
                     (search_history (add_all st calls))))"
proof -
  let ?st = "add_all st calls"
  let ?U = "filter (\<lambda>r. sh_username r = userName) (search_history ?st)"
  have ok: "search_ok ?st" by (rule add_all_ok [OF assms])
  have len: "length ?U \<le> 20" by (rule search_count_all [OF ok])
  have dk: "distinct (map sh_keyword ?U)"
    using ok by (simp add: search_ok_def user_keywords_distinct)
  have rows: "\<exists>rows. getSearchHistory ?st userName = map sh_keyword rows \<and>
                 mset rows = mset ?U \<and>
                 sorted_wrt (\<lambda>a b. sh_timestamp b \<le> sh_timestamp a) rows"
  proof (intro exI [of _ "order_by_desc sh_timestamp ?U"] conjI)
    show "getSearchHistory ?st userName = map sh_keyword (order_by_desc sh_timestamp ?U)"
      by (rule getSearchHistory_all [OF ok])
    show "mset (order_by_desc sh_timestamp ?U) = mset ?U" by simp
    show "sorted_wrt (\<lambda>a b. sh_timestamp b \<le> sh_timestamp a) (order_by_desc sh_timestamp ?U)"
      by (rule desc_sorted_wrt)
  qed
  have again: "(userName, keyword) \<in> set (map (\<lambda>r. (sh_username r, sh_keyword r))
                                       (search_history ?st)) \<longrightarrow>
            (\<exists>st'. addSearchHistory now ?st userName keyword = Inr st' \<and>
               search_history st' =
                 map (\<lambda>r. if sh_username r = userName \<and> sh_keyword r = keyword
                           then r\<lparr>sh_timestamp := now\<rparr> else r)
                     (search_history ?st))"
    using add_existing_keyword [OF ok] by blast
  from ok len dk rows again show ?thesis by (intro conjI)
qed

lemma ex_db_search_ok: "search_ok ex_db"
  by (simp add: search_ok_def search_keys_ok_def ex_db_def empty_db_def)

lemma ex_users: "map u_username (users ex_db) = [''alice'', ''bob'', ''root'']"
  by (simp add: ex_db_def ex_alice_def ex_bob_def ex_root_def new_user_row_def)

lemma ex_search0: "search_history ex_db = [] \<and> search_history_id_seq ex_db = 0"
  by (simp add: ex_db_def empty_db_def)

lemma step1: "addSearchHistory 1 ex_db ''alice'' ''dune'' =
   Inr (ex_db\<lparr>search_history := [\<lparr>sh_id = 1, sh_username = ''alice'', sh_keyword = ''dune'', sh_timestamp = 1\<rparr>],
      search_history_id_seq := 1\<rparr>)"
  by (simp add: addSearchHistory_def upsert_search_def trim_search_def ex_users ex_search0)

lemma ex_calls_result:
  "search_history (add_all ex_db ex_calls) =
     [\<lparr>sh_id = 1, sh_username = ''alice'', sh_keyword = ''dune'', sh_timestamp = 4\<rparr>,
      \<lparr>sh_id = 2, sh_username = ''alice'', sh_keyword = ''solaris'', sh_timestamp = 2\<rparr>]"
  by (simp add: ex_calls_def addSearchHistory_def upsert_search_def trim_search_def
      ex_users ex_search0)

theorem searchHistory_bounded_recent_first_witness:
  "search_ok ex_db \<and>
   (''alice'', ''dune'') \<in> set (map (\<lambda>r. (sh_username r, sh_keyword r))
                                 (search_history (add_all ex_db ex_calls))) \<and>
   search_ok (add_all ex_db ex_calls) \<and>
   getSearchHistory (add_all ex_db ex_calls) ''alice'' = [''dune'', ''solaris''] \<and>
   (\<exists>st'. addSearchHistory 9 (add_all ex_db ex_calls) ''alice'' ''dune'' = Inr st' \<and>
      length (search_history st') = 2)"
proof -
  have m: "(''alice'', ''dune'') \<in> set (map (\<lambda>r. (sh_username r, sh_keyword r))
                                 (search_history (add_all ex_db ex_calls)))"
    by (simp add: ex_calls_result)
  have g: "getSearchHistory (add_all ex_db ex_calls) ''alice'' = [''dune'', ''solaris'']"
    by (simp add: getSearchHistory_def ex_calls_result order_by_desc_def)
  note t = searchHistory_bounded_recent_first
             [OF ex_db_search_ok, of ex_calls "''alice''" "''dune''" 9]
  from t have ok: "search_ok (add_all ex_db ex_calls)" by (rule conjunct1)
  from t m obtain st' where
    a: "addSearchHistory 9 (add_all ex_db ex_calls) ''alice'' ''dune'' = Inr st'" and
    b: "search_history st' =
       map (\<lambda>r. if sh_username r = ''alice'' \<and> sh_keyword r = ''dune''
                 then r\<lparr>sh_timestamp := 9\<rparr> else r)
           (search_history (add_all ex_db ex_calls))"
    by blast
  from b have "length (search_history st') = 2" by (simp add: ex_calls_result)
  with a have e: "\<exists>st'. addSearchHistory 9 (add_all ex_db ex_calls) ''alice'' ''dune'' = Inr st' \<and>
      length (search_history st') = 2"
    by blast
  from ex_db_search_ok m ok g e show ?thesis by (intro conjI)
qed

subsection \<open>The migration flags\<close>

lemma keeps_flags_refl [simp]: "keeps_flags r r"
  by (simp add: keeps_flags_def)

lemma flags_stepI:
  assumes "\<And>r'. r' \<in> set (users st') \<Longrightarrow>
             (u_playrecord_migrated r' = 1 \<and> u_favorite_migrated r' = 1 \<and> u_skip_migrated r' = 1) \<or>
             (\<exists>r \<in> set (users st). u_username r = u_username r' \<and> keeps_flags r r')"
  shows "flags_step st st'"
  using assms unfolding flags_step_def list_all_iff list_ex_iff by blast

lemma flags_stepD:
  assumes "flags_step st st'" and "r' \<in> set (users st')"
  shows "(u_playrecord_migrated r' = 1 \<and> u_favorite_migrated r' = 1 \<and> u_skip_migrated r' = 1) \<or>
         (\<exists>r \<in> set (users st). u_username r = u_username r' \<and> keeps_flags r r')"
  using assms unfolding flags_step_def list_all_iff list_ex_iff by blast

lemma flags_step_subset:
  assumes "set (users st') \<subseteq> set (users st)"
  shows "flags_step st st'"
proof (rule flags_stepI)
  fix r' assume "r' \<in> set (users st')"
  with assms have "r' \<in> set (users st)" by blast
  then have "\<exists>r \<in> set (users st). u_username r = u_username r' \<and> keeps_flags r r'"
    by (intro bexI [of _ r']) simp_all
  then show "(u_playrecord_migrated r' = 1 \<and> u_favorite_migrated r' = 1 \<and> u_skip_migrated r' = 1) \<or>
             (\<exists>r \<in> set (users st). u_username r = u_username r' \<and> keeps_flags r r')" ..
qed

lemma flags_step_same: "users st' = users st \<Longrightarrow> flags_step st st'"
  by (rule flags_step_subset) simp

lemma flags_step_map:
  assumes "users st' = map g (users st)"
    and "\<And>r. u_username (g r) = u_username r" and "\<And>r. keeps_flags r (g r)"
  shows "flags_step st st'"
proof (rule flags_stepI)
  fix r' assume "r' \<in> set (users st')"
  with assms(1) obtain r where r: "r \<in> set (users st)" "r' = g r" by auto
  with assms(2,3) have "\<exists>r \<in> set (users st). u_username r = u_username r' \<and> keeps_flags r r'"
    by (intro bexI [of _ r]) simp_all
  then show "(u_playrecord_migrated r' = 1 \<and> u_favorite_migrated r' = 1 \<and> u_skip_migrated r' = 1) \<or>
             (\<exists>r \<in> set (users st). u_username r = u_username r' \<and> keeps_flags r r')" ..
qed

lemma new_user_row_flags:
  "u_playrecord_migrated (new_user_row u h r bn tg oi ap t) = 1 \<and>
   u_favorite_migrated (new_user_row u h r bn tg oi ap t) = 1 \<and>
   u_skip_migrated (new_user_row u h r bn tg oi ap t) = 1"
  by (simp add: new_user_row_def)

lemma flags_step_insert:
  assumes "users st' = users st @ [new_user_row u h r bn tg oi ap t]"
  shows "flags_step st st'"
proof (rule flags_stepI)
  fix r' assume "r' \<in> set (users st')"
  with assms have "r' \<in> set (users st) \<or> r' = new_user_row u h r bn tg oi ap t" by auto
  then show "(u_playrecord_migrated r' = 1 \<and> u_favorite_migrated r' = 1 \<and> u_skip_migrated r' = 1) \<or>
             (\<exists>r \<in> set (users st). u_username r = u_username r' \<and> keeps_flags r r')"
  proof
    assume "r' \<in> set (users st)"
    then have "\<exists>r \<in> set (users st). u_username r = u_username r' \<and> keeps_flags r r'"
      by (intro bexI [of _ r']) simp_all
    then show ?thesis ..
  next
    assume "r' = new_user_row u h r bn tg oi ap t"
    then show ?thesis using new_user_row_flags [of u h r bn tg oi ap t] by simp
  qed
qed

lemma users_cache_delete [simp]: "users (cache_delete u st) = users st"
  by (simp add: cache_delete_def)

lemma users_cache_set [simp]: "users (cache_set u i st) = users st"
  by (simp add: cache_set_def)

lemma users_update_user:
  "users (update_user u g st) = map (\<lambda>r. if u_username r = u then g r else r) (users st)"
  by (simp add: update_user_def)

lemma flags_step_update_user:
  assumes "\<And>r. u_username (g r) = u_username r" and "\<And>r. keeps_flags r (g r)"
  shows "flags_step st (update_user u g st)"
proof (rule flags_step_map [OF users_update_user])
  fix r show "u_username (if u_username r = u then g r else r) = u_username r"
    using assms(1) by simp
  show "keeps_flags r (if u_username r = u then g r else r)"
    using assms(2) by simp
qed

lemma insert_user_users:
  "insert_user row st = Inr st' \<Longrightarrow> users st' = users st @ [row]"
  by (auto simp: insert_user_def split: if_splits)

lemma flags_step_insert_user:
  "flags_step st (or_unchanged st (insert_user (new_user_row u h r bn tg oi ap t) st))"
proof (cases "insert_user (new_user_row u h r bn tg oi ap t) st")
  case (Inl err)
  then show ?thesis by (simp add: or_unchanged_def flags_step_same)
next
  case (Inr st')
  from insert_user_users [OF Inr] have "flags_step st st'" by (rule flags_step_insert)
  with Inr show ?thesis by (simp add: or_unchanged_def)
qed

lemma getUserInfoV2_users:
  "users (snd (getUserInfoV2 b e now st u)) = users st \<or>
   users (snd (getUserInfoV2 b e now st u))
     = users st @ [new_user_row u [] role_owner 0 None None None now]"
proof (cases "insert_user (new_user_row u [] role_owner 0 None None None now) st")
  case (Inl err)
  then show ?thesis
    by (simp add: getUserInfoV2_def Let_def ownerInfo_default_def split: option.splits)
next
  case (Inr st')
  from insert_user_users [OF Inr] Inr show ?thesis
    by (simp add: getUserInfoV2_def Let_def ownerInfo_default_def split: option.splits)
qed

lemma flags_step_getUserInfoV2: "flags_step st (snd (getUserInfoV2 b e now st u))"
  using getUserInfoV2_users [of b e now st u]
  by (auto intro: flags_step_same flags_step_insert)

lemma getUserListV2_state:
  "snd (getUserListV2 b e now st off lim owner) =
     (if truthy owner then snd (getUserInfoV2 b e now st (the owner)) else st)"
  by (simp add: getUserListV2_def Let_def split: prod.splits sum.splits)

lemma flags_step_users:
  "users st'' = users st' \<Longrightarrow> flags_step st st' \<Longrightarrow> flags_step st st''"
  by (simp add: flags_step_def)

lemma cleanup_users:
  "cleanupOldPlayRecords b e st u = Inr st' \<Longrightarrow> users st' = users st"
  by (auto simp: cleanupOldPlayRecords_def Let_def split: option.splits if_splits sum.splits)

lemma addSearchHistory_users:
  "addSearchHistory now st u k = Inr st' \<Longrightarrow> users st' = users st"
  by (auto simp: addSearchHistory_def upsert_search_def trim_search_def Let_def
      split: sum.splits if_splits)

lemma or_unchanged_users:
  assumes "\<And>st'. res = Inr st' \<Longrightarrow> users st' = users st"
  shows "users (or_unchanged st res) = users st"
  using assms by (cases res) (simp_all add: or_unchanged_def)

lemma keeps_flags_set_play [simp]: "keeps_flags r (r\<lparr>u_playrecord_migrated := 1\<rparr>)"
  by (simp add: keeps_flags_def)

lemma keeps_flags_set_fav [simp]: "keeps_flags r (r\<lparr>u_favorite_migrated := 1\<rparr>)"
  by (simp add: keeps_flags_def)

lemma keeps_flags_set_skip [simp]: "keeps_flags r (r\<lparr>u_skip_migrated := 1\<rparr>)"
  by (simp add: keeps_flags_def)

lemma apply_updates_keeps:
  "u_username (apply_updates upd r) = u_username r \<and> keeps_flags r (apply_updates upd r)"
  by (simp add: apply_updates_def keeps_flags_def Let_def split: option.splits)

lemma flags_step_delete_rows: "flags_step st (delete_user_rows st u)"
  by (rule flags_step_subset) (auto simp: delete_user_rows_def)

lemma exec_flags_step: "flags_step st (exec b e now st op)"
proof (cases op)
  case (SetPlayRecord u k r)
  have "users (or_unchanged st (setPlayRecord b st u k r)) = users st"
    by (rule or_unchanged_users) (rule setPlayRecord_users)
  with SetPlayRecord show ?thesis by (simp add: flags_step_same)
next
  case (DeletePlayRecord u k)
  then show ?thesis by (simp add: deletePlayRecord_def flags_step_same)
next
  case (CleanupOldPlayRecords u)
  have "users (or_unchanged st (cleanupOldPlayRecords b e st u)) = users st"
    by (rule or_unchanged_users) (rule cleanup_users)
  with CleanupOldPlayRecords show ?thesis by (simp add: flags_step_same)
next
  case (MigratePlayRecords u)
  have "flags_step st (update_user u (\<lambda>r. r\<lparr>u_playrecord_migrated := 1\<rparr>) st)"
    by (rule flags_step_update_user) simp_all
  then have "flags_step st (migratePlayRecords b st u)"
    by (rule flags_step_users [rotated]) (simp add: migratePlayRecords_def Let_def)
  with MigratePlayRecords show ?thesis by simp
next
  case (MigrateFavorites u)
  have "flags_step st (update_user u (\<lambda>r. r\<lparr>u_favorite_migrated := 1\<rparr>) st)"
    by (rule flags_step_update_user) simp_all
  then have "flags_step st (migrateFavorites b st u)"
    by (rule flags_step_users [rotated]) (simp add: migrateFavorites_def Let_def)
  with MigrateFavorites show ?thesis by simp
next
  case (MigrateSkipConfigs u)
  have "flags_step st (update_user u (\<lambda>r. r\<lparr>u_skip_migrated := 1\<rparr>) st)"
    by (rule flags_step_update_user) simp_all
  then have "flags_step st (migrateSkipConfigs b st u)"
    by (rule flags_step_users [rotated]) (simp add: migrateSkipConfigs_def Let_def)
  with MigrateSkipConfigs show ?thesis by simp
next
  case (ChangePassword u p)
  have "flags_step st (update_user u (\<lambda>r. r\<lparr>u_password_hash := hashPassword p\<rparr>) st)"
    by (rule flags_step_update_user) (simp_all add: keeps_flags_def)
  with ChangePassword show ?thesis by (simp add: changePassword_def)
next
  case (DeleteUser u)
  then show ?thesis by (simp add: deleteUser_def flags_step_delete_rows)
next
  case (GetUserInfoV2 u)
  then show ?thesis by (simp add: flags_step_getUserInfoV2)
next
  case (CreateUserV2 u p r tgs oidc apis)
  have a: "flags_step st
             (or_unchanged st (insert_user
                (new_user_row u (hashPassword p) r 0 tgs (or_null oidc) apis now) st))"
    by (rule flags_step_insert_user)
  have "users (or_unchanged st (createUserV2 b now st u p r tgs oidc apis))
          = users (or_unchanged st (insert_user
                (new_user_row u (hashPassword p) r 0 tgs (or_null oidc) apis now) st))"
    by (simp add: createUserV2_def or_unchanged_def split: sum.splits)
  from flags_step_users [OF this a] CreateUserV2 show ?thesis by simp
next
  case (GetUserListV2 off lim owner)
  then show ?thesis
    by (simp add: getUserListV2_state flags_step_getUserInfoV2 flags_step_same)
next
  case (UpdateUserInfoV2 u upd)
  have a: "flags_step st (update_user u (apply_updates upd) st)"
    by (rule flags_step_update_user) (simp_all add: apply_updates_keeps)
  have "users (or_unchanged st (updateUserInfoV2 st u upd)) = users st \<or>
        users (or_unchanged st (updateUserInfoV2 st u upd))
          = users (update_user u (apply_updates upd) st)"
    by (simp add: updateUserInfoV2_def or_unchanged_def)
  then have "flags_step st (or_unchanged st (updateUserInfoV2 st u upd))"
    using a by (auto intro: flags_step_same flags_step_users)
  with UpdateUserInfoV2 show ?thesis by simp
next
  case (ChangePasswordV2 u p)
  have "flags_step st (update_user u (\<lambda>r. r\<lparr>u_password_hash := hashPassword p\<rparr>) st)"
    by (rule flags_step_update_user) (simp_all add: keeps_flags_def)
  then have "flags_step st (changePasswordV2 b st u p)"
    by (rule flags_step_users [rotated]) (simp add: changePasswordV2_def Let_def)
  with ChangePasswordV2 show ?thesis by simp
next
  case (DeleteUserV2 u)
  have "flags_step st (deleteUserV2 st u)"
    by (rule flags_step_users [OF _ flags_step_delete_rows]) (simp add: deleteUserV2_def)
  with DeleteUserV2 show ?thesis by simp
next
  case (SetUserPasswordHash u h)
  have "flags_step st (update_user u (\<lambda>r. r\<lparr>u_password_hash := h\<rparr>) st)"
    by (rule flags_step_update_user) (simp_all add: keeps_flags_def)
  with SetUserPasswordHash show ?thesis by (simp add: setUserPasswordHash_def)
next
  case (CreateUserWithHashedPassword u h r t tgs oidc apis bnd)
  have "flags_step st
          (or_unchanged st (insert_user
             (new_user_row u h r (if bnd = Some True then 1 else 0) tgs (or_null oidc) apis t) st))"
    by (rule flags_step_insert_user)
  with CreateUserWithHashedPassword show ?thesis
    by (simp add: createUserWithHashedPassword_def)
next
  case (SetUserEmail u m)
  have "flags_step st (update_user u (\<lambda>r. r\<lparr>u_email := Some m\<rparr>) st)"
    by (rule flags_step_update_user) (simp_all add: keeps_flags_def)
  then have "flags_step st (setUserEmail st u m)"
    by (rule flags_step_users [rotated]) (simp add: setUserEmail_def)
  with SetUserEmail show ?thesis by simp
next
  case (SetEmailNotificationPreference u en)
  have "flags_step st
          (update_user u (\<lambda>r. r\<lparr>u_email_notifications := (if en then 1 else 0)\<rparr>) st)"
    by (rule flags_step_update_user) (simp_all add: keeps_flags_def)
  then have "flags_step st (setEmailNotificationPreference st u en)"
    by (rule flags_step_users [rotated]) (simp add: setEmailNotificationPreference_def)
  with SetEmailNotificationPreference show ?thesis by simp
next
  case (UpdateLastMovieRequestTime u t)
  have "flags_step st (update_user u (\<lambda>r. r\<lparr>u_last_movie_request_time := Some t\<rparr>) st)"
    by (rule flags_step_update_user) (simp_all add: keeps_flags_def)
  with UpdateLastMovieRequestTime show ?thesis by (simp add: updateLastMovieRequestTime_def)
next
  case (AddSearchHistory u k)
  have "users (or_unchanged st (addSearchHistory now st u k)) = users st"
    by (rule or_unchanged_users) (rule addSearchHistory_users)
  with AddSearchHistory show ?thesis by (simp add: flags_step_same)
next
  case (DeleteSearchHistory u k)
  then show ?thesis by (simp add: deleteSearchHistory_def flags_step_same)
next
  case (SetAdminConfig json)
  then show ?thesis by (simp add: setAdminConfig_def flags_step_same)
next
  case ClearAllData
  then show ?thesis by (simp add: clearAllData_def flags_step_same)
qed

lemma all_marked_step:
  assumes "flags_step st st'"
    and "flag = u_playrecord_migrated \<or> flag = u_favorite_migrated \<or> flag = u_skip_migrated"
    and "all_marked flag userName st"
  shows "all_marked flag userName st'"
  unfolding all_marked_def list_all_iff
proof (intro ballI impI)
  fix r' assume r': "r' \<in> set (users st')" and u: "u_username r' = userName"
  from flags_stepD [OF assms(1) r'] show "flag r' = 1"
  proof
    assume "u_playrecord_migrated r' = 1 \<and> u_favorite_migrated r' = 1 \<and> u_skip_migrated r' = 1"
    with assms(2) show ?thesis by auto
  next
    assume "\<exists>r \<in> set (users st). u_username r = u_username r' \<and> keeps_flags r r'"
    then obtain r where r: "r \<in> set (users st)" "u_username r = u_username r'" "keeps_flags r r'"
      by blast
    from assms(3) r(1,2) u have "flag r = 1" by (auto simp: all_marked_def list_all_iff)
    with r(3) assms(2) show ?thesis by (auto simp: keeps_flags_def)
  qed
qed

lemma run_all_marked:
  assumes "flag = u_playrecord_migrated \<or> flag = u_favorite_migrated \<or> flag = u_skip_migrated"
  shows "all_marked flag userName st \<Longrightarrow> all_marked flag userName (run b e st ops)"
proof (induction ops arbitrary: st)
  case Nil
  then show ?case by simp
next
  case (Cons c ops)
  obtain now op where c: "c = (now, op)" by (cases c) auto
  have "all_marked flag userName (exec b e now st op)"
    by (rule all_marked_step [OF exec_flags_step assms Cons.prems])
  with Cons.IH c show ?case by simp
qed

text \<open>
  C7. Through any run of storage operations, a user whose rows all have
  \<^verbatim>\<open>playrecord_migrated\<close> set keeps it set, and so for \<^verbatim>\<open>favorite_migrated\<close> and
  \<^verbatim>\<open>skip_migrated\<close>: each operation leaves every row either new with the three flags
  set, or a continuation of a row of the same user with no flag reset.
  \<^verbatim>\<open>migratePlayRecords\<close>, \<^verbatim>\<open>migrateFavorites\<close> and \<^verbatim>\<open>migrateSkipConfigs\<close> change, in
  \<^verbatim>\<open>users\<close>, nothing but their flag of the user's row, which they set to 1.
\<close>

theorem migrated_flags_never_reset:
  "(all_marked u_playrecord_migrated userName st \<longrightarrow>
      all_marked u_playrecord_migrated userName (run b e st ops)) \<and>
   (all_marked u_favorite_migrated userName st \<longrightarrow>
      all_marked u_favorite_migrated userName (run b e st ops)) \<and>
   (all_marked u_skip_migrated userName st \<longrightarrow>
      all_marked u_skip_migrated userName (run b e st ops)) \<and>
   flags_step st (exec b e now st op) \<and>
   users (migratePlayRecords b st v) =
     map (\<lambda>r. if u_username r = v then r\<lparr>u_playrecord_migrated := 1\<rparr> else r) (users st) \<and>
   users (migrateFavorites b st v) =
     map (\<lambda>r. if u_username r = v then r\<lparr>u_favorite_migrated := 1\<rparr> else r) (users st) \<and>
   users (migrateSkipConfigs b st v) =
     map (\<lambda>r. if u_username r = v then r\<lparr>u_skip_migrated := 1\<rparr> else r) (users st)"
proof (intro conjI impI)
  assume "all_marked u_playrecord_migrated userName st"
  then show "all_marked u_playrecord_migrated userName (run b e st ops)"
    by (rule run_all_marked [rotated]) simp
next
  assume "all_marked u_favorite_migrated userName st"
  then show "all_marked u_favorite_migrated userName (run b e st ops)"
    by (rule run_all_marked [rotated]) simp
next
  assume "all_marked u_skip_migrated userName st"
  then show "all_marked u_skip_migrated userName (run b e st ops)"
    by (rule run_all_marked [rotated]) simp
next
  show "flags_step st (exec b e now st op)" by (rule exec_flags_step)
next
  show "users (migratePlayRecords b st v) =
          map (\<lambda>r. if u_username r = v then r\<lparr>u_playrecord_migrated := 1\<rparr> else r) (users st)"
    by (simp add: migratePlayRecords_def Let_def users_update_user)
next
  show "users (migrateFavorites b st v) =
          map (\<lambda>r. if u_username r = v then r\<lparr>u_favorite_migrated := 1\<rparr> else r) (users st)"
    by (simp add: migrateFavorites_def Let_def users_update_user)
next
  show "users (migrateSkipConfigs b st v) =
          map (\<lambda>r. if u_username r = v then r\<lparr>u_skip_migrated := 1\<rparr> else r) (users st)"
    by (simp add: migrateSkipConfigs_def Let_def users_update_user)
qed

lemma ex_db_marked:
  "all_marked u_playrecord_migrated ''alice'' ex_db \<and>
   all_marked u_favorite_migrated ''alice'' ex_db \<and>
   all_marked u_skip_migrated ''alice'' ex_db"
  by (simp add: all_marked_def ex_db_def ex_alice_def ex_bob_def ex_root_def new_user_row_def)

lemma ex_ops_users:
  "map u_username (users (run PostgresStorage ex_env ex_db ex_ops)) = [''bob'', ''root'', ''alice'']"
  by (simp add: ex_ops_def ex_db_def empty_db_def ex_alice_def ex_bob_def ex_root_def
      new_user_row_def updateUserInfoV2_def or_unchanged_def update_user_def cache_delete_def
      changePasswordV2_def migrateFavorites_def deleteUserV2_def delete_user_rows_def
      createUserV2_def insert_user_def or_null_def getUserListV2_state truthy_def
      getUserInfoV2_def first_def cache_set_def row_userInfo_def Let_def apply_updates_def)

theorem migrated_flags_never_reset_witness:
  "all_marked u_playrecord_migrated ''alice'' ex_db \<and>
   all_marked u_favorite_migrated ''alice'' ex_db \<and>
   all_marked u_skip_migrated ''alice'' ex_db \<and>
   ''alice'' \<in> set (map u_username (users (run PostgresStorage ex_env ex_db ex_ops))) \<and>
   all_marked u_playrecord_migrated ''alice'' (run PostgresStorage ex_env ex_db ex_ops) \<and>
   all_marked u_favorite_migrated ''alice'' (run PostgresStorage ex_env ex_db ex_ops) \<and>
   all_marked u_skip_migrated ''alice'' (run PostgresStorage ex_env ex_db ex_ops)"
proof -
  have m: "''alice'' \<in> set (map u_username (users (run PostgresStorage ex_env ex_db ex_ops)))"
    by (simp add: ex_ops_users)
  from migrated_flags_never_reset
         [of "''alice''" ex_db PostgresStorage ex_env ex_ops 0 ClearAllData "''alice''"]
       ex_db_marked m
  show ?thesis by blast
qed

subsection \<open>The paged user list\<close>

lemma getUserListV2_page:
  assumes "truthy owner"
  shows "fst (fst (getUserListV2 b e now st off lim owner)) =
     (let info = fst (getUserInfoV2 b e now st (the owner));
          st1 = snd (getUserInfoV2 b e now st (the owner));
          inDb = (case info of None \<Rightarrow> False | Some i \<Rightarrow> created_at i \<noteq> 0)
      in case sql_limit_offset b (if \<not> inDb \<and> off = 0 then lim - 1 else lim)
                (if \<not> inDb \<and> off \<noteq> 0 then off - 1 else off)
                (order_by_desc u_created_at (users st1)) of
           Inl err \<Rightarrow> []
         | Inr result \<Rightarrow>
             (if off = 0 then [owner_entry (the owner) info] else []) @
             map row_entry (filter (\<lambda>usr. Some (u_username usr) \<noteq> owner) result))"
  using assms
  by (simp add: getUserListV2_def Let_def split: prod.splits sum.splits)

lemma sql_limit_offset_length:
  assumes "sql_limit_offset b l off rows = Inr result" and "0 \<le> l"
  shows "int (length result) \<le> l"
  using assms by (cases b) (auto simp: sql_limit_offset_def split: if_splits)

lemma sql_limit_offset_ok:
  "0 \<le> l \<Longrightarrow> 0 \<le> off \<Longrightarrow> \<exists>result. sql_limit_offset b l off rows = Inr result"
  by (cases b) (simp_all add: sql_limit_offset_def)

lemma owner_entry_fields:
  "username (owner_entry name info) = name \<and> role (owner_entry name info) = role_owner"
  by (simp add: owner_entry_def split: option.splits)

lemma getUserListV2_owner_first:
  assumes "truthy owner" and "1 \<le> lim"
  shows "\<exists>first_entry rest.
           fst (fst (getUserListV2 b e now st 0 lim owner)) = first_entry # rest \<and>
           username first_entry = the owner \<and> role first_entry = role_owner"
proof -
  define info where "info = fst (getUserInfoV2 b e now st (the owner))"
  define st1 where "st1 = snd (getUserInfoV2 b e now st (the owner))"
  define inDb where "inDb = (case info of None \<Rightarrow> False | Some i \<Rightarrow> created_at i \<noteq> 0)"
  define l where "l = (if \<not> inDb then lim - 1 else lim)"
  have "0 \<le> l" using assms(2) by (simp add: l_def)
  from sql_limit_offset_ok [OF this, of 0 b "order_by_desc u_created_at (users st1)"]
  obtain result where
    r: "sql_limit_offset b l 0 (order_by_desc u_created_at (users st1)) = Inr result"
    by auto
  have "fst (fst (getUserListV2 b e now st 0 lim owner)) =
          owner_entry (the owner) info #
          map row_entry (filter (\<lambda>usr. Some (u_username usr) \<noteq> owner) result)"
    using r unfolding getUserListV2_page [OF assms(1)] Let_def
    by (simp add: info_def st1_def inDb_def l_def)
  with owner_entry_fields [of "the owner" info] show ?thesis by blast
qed

lemma getUserListV2_page_bound:
  assumes "truthy owner" and "1 \<le> lim"
  shows "int (length (fst (fst (getUserListV2 b e now st off lim owner)))) \<le> lim + 1"
proof -
  define info where "info = fst (getUserInfoV2 b e now st (the owner))"
  define st1 where "st1 = snd (getUserInfoV2 b e now st (the owner))"
  define inDb where "inDb = (case info of None \<Rightarrow> False | Some i \<Rightarrow> created_at i \<noteq> 0)"
  define l where "l = (if \<not> inDb \<and> off = 0 then lim - 1 else lim)"
  define f where "f = (if \<not> inDb \<and> off \<noteq> 0 then off - 1 else off)"
  have l0: "0 \<le> l" and ll: "l \<le> lim" using assms(2) by (simp_all add: l_def)
  show ?thesis
  proof (cases "sql_limit_offset b l f (order_by_desc u_created_at (users st1))")
    case (Inl err)
    then have "fst (fst (getUserListV2 b e now st off lim owner)) = []"
      unfolding getUserListV2_page [OF assms(1)] Let_def
      by (simp add: info_def st1_def inDb_def l_def f_def)
    with assms(2) show ?thesis by simp
  next
    case (Inr result)
    from sql_limit_offset_length [OF Inr l0] ll have len: "int (length result) \<le> lim" by simp
    have "fst (fst (getUserListV2 b e now st off lim owner)) =
            (if off = 0 then [owner_entry (the owner) info] else []) @
            map row_entry (filter (\<lambda>usr. Some (u_username usr) \<noteq> owner) result)"
      using Inr unfolding getUserListV2_page [OF assms(1)] Let_def
      by (simp add: info_def st1_def inDb_def l_def f_def)
    then have "int (length (fst (fst (getUserListV2 b e now st off lim owner)))) \<le>
            1 + int (length (filter (\<lambda>usr. Some (u_username usr) \<noteq> owner) result))"
      by simp
    moreover have "int (length (filter (\<lambda>usr. Some (u_username usr) \<noteq> owner) result))
                     \<le> int (length result)"
      using length_filter_le [of "\<lambda>usr. Some (u_username usr) \<noteq> owner" result] by linarith
    ultimately show ?thesis using len by linarith
  qed
qed

lemma getUserListV2_page_bound_adjusted:
  assumes "truthy owner" and "1 \<le> lim"
    and "off \<noteq> 0 \<or> fst (getUserInfoV2 b e now st (the owner)) = None"
  shows "int (length (fst (fst (getUserListV2 b e now st off lim owner)))) \<le> lim"
proof -
  define info where "info = fst (getUserInfoV2 b e now st (the owner))"
  define st1 where "st1 = snd (getUserInfoV2 b e now st (the owner))"
  define inDb where "inDb = (case info of None \<Rightarrow> False | Some i \<Rightarrow> created_at i \<noteq> 0)"
  define l where "l = (if \<not> inDb \<and> off = 0 then lim - 1 else lim)"
  define f where "f = (if \<not> inDb \<and> off \<noteq> 0 then off - 1 else off)"
  have l0: "0 \<le> l" and ll: "l \<le> lim" using assms(2) by (simp_all add: l_def)
  have l1: "off = 0 \<Longrightarrow> l = lim - 1"
    using assms(3) by (auto simp: l_def inDb_def info_def)
  show ?thesis
  proof (cases "sql_limit_offset b l f (order_by_desc u_created_at (users st1))")
    case (Inl err)
    then have "fst (fst (getUserListV2 b e now st off lim owner)) = []"
      unfolding getUserListV2_page [OF assms(1)] Let_def
      by (simp add: info_def st1_def inDb_def l_def f_def)
    with assms(2) show ?thesis by simp
  next
    case (Inr result)
    from sql_limit_offset_length [OF Inr l0] have len: "int (length result) \<le> l" .
    have pg: "fst (fst (getUserListV2 b e now st off lim owner)) =
            (if off = 0 then [owner_entry (the owner) info] else []) @
            map row_entry (filter (\<lambda>usr. Some (u_username usr) \<noteq> owner) result)"
      using Inr unfolding getUserListV2_page [OF assms(1)] Let_def
      by (simp add: info_def st1_def inDb_def l_def f_def)
    have fl: "int (length (filter (\<lambda>usr. Some (u_username usr) \<noteq> owner) result))
                \<le> int (length result)"
      using length_filter_le [of "\<lambda>usr. Some (u_username usr) \<noteq> owner" result] by linarith
    show ?thesis
    proof (cases "off = 0")
      case True
      with l1 len have a: "int (length result) \<le> lim - 1" by simp
      from pg True have "int (length (fst (fst (getUserListV2 b e now st off lim owner)))) =
            1 + int (length (filter (\<lambda>usr. Some (u_username usr) \<noteq> owner) result))"
        by simp
      with a fl show ?thesis by linarith
    next
      case False
      with pg have "int (length (fst (fst (getUserListV2 b e now st off lim owner)))) =
            int (length (filter (\<lambda>usr. Some (u_username usr) \<noteq> owner) result))"
        by simp
      with fl len ll show ?thesis by linarith
    qed
  qed
qed

lemma ex_db_rows:
  "users ex_db = [ex_alice, ex_bob, ex_root] \<and> userInfoCache ex_db ''root'' = None"
  by (simp add: ex_db_def empty_db_def)

lemma ex_rows_names:
  "u_username ex_alice = ''alice'' \<and> u_username ex_bob = ''bob'' \<and> u_username ex_root = ''root''"
  by (simp add: ex_alice_def ex_bob_def ex_root_def new_user_row_def)

lemma ex_rows_created:
  "u_created_at ex_alice = 30 \<and> u_created_at ex_bob = 20 \<and> u_created_at ex_root = 10"
  by (simp add: ex_alice_def ex_bob_def ex_root_def new_user_row_def)

lemma ex_root_info:
  "getUserInfoV2 b ex_env now ex_db ''root'' =
     (Some ((row_userInfo ex_root)\<lparr>role := role_owner\<rparr>),
      cache_set ''root'' ((row_userInfo ex_root)\<lparr>role := role_owner\<rparr>) ex_db)"
  by (simp add: getUserInfoV2_def ex_db_rows ex_rows_names first_def Let_def)
     (simp add: row_userInfo_def ex_root_def new_user_row_def)

lemma ex_order:
  "order_by_desc u_created_at [ex_alice, ex_bob, ex_root] = [ex_alice, ex_bob, ex_root]"
  by (simp add: order_by_desc_def ex_rows_created)

lemma ex_page:
  "map username (fst (fst (getUserListV2 b ex_env now ex_db 0 2 (Some ''root''))))
     = [''root'', ''alice'', ''bob'']"
  by (cases b)
     (simp_all add: getUserListV2_def ex_root_info truthy_def row_userInfo_def
        sql_limit_offset_def ex_db_rows ex_order ex_rows_names ex_rows_created owner_entry_def
        row_entry_def
        Let_def)

lemma ex_page2:
  "map username (fst (fst (getUserListV2 b ex_env now ex_db 2 2 (Some ''root'')))) = []"
  by (cases b)
     (simp_all add: getUserListV2_def ex_root_info truthy_def row_userInfo_def
        sql_limit_offset_def ex_db_rows ex_order ex_rows_names ex_rows_created owner_entry_def
        row_entry_def
        Let_def)

text \<open>
  C1. At the failing input, three stored users of whom the owner \<open>root\<close> is the oldest,
  and \<^verbatim>\<open>getUserListV2(0, 2, 'root')\<close>: the owner has a row, so the limit is not
  reduced; the owner is put first and the two newest rows follow, three users on a page
  of limit 2. The page at offset 2 then fetches the owner's row, skips it, and is empty.
\<close>

theorem getUserListV2_first_page_exceeds_limit:
  "''root'' \<in> set (map u_username (users ex_db)) \<and> length (users ex_db) = 3 \<and>
   map username (fst (fst (getUserListV2 PostgresStorage ex_env 99 ex_db 0 2 (Some ''root''))))
     = [''root'', ''alice'', ''bob''] \<and>
   map username (fst (fst (getUserListV2 D1Storage ex_env 99 ex_db 0 2 (Some ''root''))))
     = [''root'', ''alice'', ''bob''] \<and>
   length (fst (fst (getUserListV2 PostgresStorage ex_env 99 ex_db 0 2 (Some ''root'')))) = 3 \<and>
   length (fst (fst (getUserListV2 D1Storage ex_env 99 ex_db 0 2 (Some ''root'')))) = 3 \<and>
   fst (fst (getUserListV2 PostgresStorage ex_env 99 ex_db 2 2 (Some ''root''))) = [] \<and>
   fst (fst (getUserListV2 D1Storage ex_env 99 ex_db 2 2 (Some ''root''))) = []"
proof -
  have a: "''root'' \<in> set (map u_username (users ex_db)) \<and> length (users ex_db) = 3"
    by (simp add: ex_db_rows ex_rows_names)
  have l: "length (fst (fst (getUserListV2 b ex_env 99 ex_db 0 2 (Some ''root'')))) = 3" for b
    using ex_page [of b 99] by (metis length_map length_Cons list.size(3) numeral_3_eq_3)
  have e: "fst (fst (getUserListV2 b ex_env 99 ex_db 2 2 (Some ''root''))) = []" for b
    using ex_page2 [of b 99] by simp
  from a ex_page [of PostgresStorage 99] ex_page [of D1Storage 99] l e show ?thesis by simp
qed

end
